theory Spec2Isabelle
  imports Complex_Main "HOL-Library.Log_Nat"
begin

section \<open>Technical indicators of the MACD bot\<close>

text \<open>
  JavaScript numbers are modelled as real numbers and, in this first part, the
  arithmetic of the indicator pipeline is taken to be exact. The rounding of the
  program's doubles is added to \<^verbatim>\<open>emaSeries\<close> in a later section, for the one property
  below that depends on it. An array slot holding \<^verbatim>\<open>null\<close> is \<open>None\<close>, a slot
  holding a number is \<open>Some\<close> of it.
\<close>

type_synonym series = "real option list"

definition MACD_FAST :: nat where "MACD_FAST = 12"
definition MACD_SLOW :: nat where "MACD_SLOW = 26"
definition MACD_SIGNAL :: nat where "MACD_SIGNAL = 9"

text \<open>
  The loop of \<^verbatim>\<open>emaSeries\<close>:
  \<^verbatim>\<open>for (let i = period; i < values.length; i++) {
       prev = values[i] * k + prev * (1 - k); out[i] = prev; }\<close>
\<close>

function emaLoop :: "real list \<Rightarrow> real \<Rightarrow> nat \<Rightarrow> real \<Rightarrow> series \<Rightarrow> series" where
  "emaLoop values k i prev out =
     (if i < length values
      then (let prev' = values ! i * k + prev * (1 - k)
            in emaLoop values k (Suc i) prev' (out[i := Some prev']))
      else out)"
  by pat_completeness auto
termination
  by (relation "measure (\<lambda>(values, k, i, prev, out). length values - i)") auto

declare emaLoop.simps [simp del]

text \<open>
  \<^verbatim>\<open>emaSeries(values, period)\<close>: an array aligned with \<^verbatim>\<open>values\<close>, \<^verbatim>\<open>null\<close> before
  index \<^verbatim>\<open>period - 1\<close>, the simple average of the first \<^verbatim>\<open>period\<close> values there, and
  the recurrence after it. The callers pass the periods 12, 26 and 9 only; for
  \<^verbatim>\<open>period = 0\<close> the source divides zero by zero (NaN), which this model of numbers
  does not represent, so every statement about \<open>emaSeries\<close> below takes \<open>0 < period\<close>.
\<close>

definition emaSeries :: "real list \<Rightarrow> nat \<Rightarrow> series" where
  "emaSeries values period =
     (let out = replicate (length values) None in
      if length values < period then out
      else
        let prev = sum_list (take period values) / real period;
            out1 = out[period - 1 := Some prev];
            k = 2 / (real period + 1)
        in emaLoop values k period prev out1)"

text \<open>
  \<^verbatim>\<open>macdSeries(closePrices)\<close> returns the three aligned arrays \<^verbatim>\<open>{ macd, signal, hist }\<close>.
  The MACD line is filled where both EMAs are non-null. For the signal line the source
  first replaces every \<^verbatim>\<open>null\<close> of the MACD line by \<^verbatim>\<open>0\<close> (\<^verbatim>\<open>macdVals\<close>), runs
  \<^verbatim>\<open>emaSeries\<close> over that array from index 0, and then blanks the indices whose MACD
  value is \<^verbatim>\<open>null\<close>.
\<close>

record macd_frame =
  macd :: series
  signal :: series
  hist :: series

definition macdLine :: "series \<Rightarrow> series \<Rightarrow> nat \<Rightarrow> series" where
  "macdLine fast slow n =
     map (\<lambda>i. case fast ! i of
                None \<Rightarrow> None
              | Some f \<Rightarrow> (case slow ! i of None \<Rightarrow> None | Some s \<Rightarrow> Some (f - s)))
         [0..<n]"

definition macdVals :: "series \<Rightarrow> real list" where
  "macdVals m = map (\<lambda>v. case v of None \<Rightarrow> 0 | Some x \<Rightarrow> x) m"

definition signalLine :: "series \<Rightarrow> series" where
  "signalLine m =
     (let e = emaSeries (macdVals m) MACD_SIGNAL
      in map (\<lambda>idx. if m ! idx = None then None else e ! idx) [0..<length e])"

definition histLine :: "series \<Rightarrow> series \<Rightarrow> series" where
  "histLine m sg =
     map (\<lambda>i. case m ! i of
                None \<Rightarrow> None
              | Some v \<Rightarrow> (case sg ! i of None \<Rightarrow> None | Some s \<Rightarrow> Some (v - s)))
         [0..<length m]"

definition macdSeries :: "real list \<Rightarrow> macd_frame" where
  "macdSeries closePrices =
     (let fast = emaSeries closePrices MACD_FAST;
          slow = emaSeries closePrices MACD_SLOW;
          m = macdLine fast slow (length closePrices);
          sg = signalLine m
      in \<lparr>macd = m, signal = sg, hist = histLine m sg\<rparr>)"

subsection \<open>The analyzer\<close>

datatype cross_kind = BullishCross | BearishCross

text \<open>
  The fields of the object \<^verbatim>\<open>analyzeTicker\<close> returns that the scan reads. The fetched
  bars are sorted by date and \<^verbatim>\<open>closes\<close> is their \<^verbatim>\<open>close\<close> column, so
  \<^verbatim>\<open>raw[idx].close\<close> is \<^verbatim>\<open>closes[idx]\<close>.
\<close>

record analysis =
  cross :: "cross_kind option"
  macdNow :: "real option"
  signalNow :: "real option"
  histNow :: "real option"
  histPrev :: "real option"
  price :: real
  prevPrice :: real
  idx :: nat

text \<open>
  \<^verbatim>\<open>while (idx >= 0 && (macd[idx] === null || signal[idx] === null)) idx--;\<close>
\<close>

function latestIdx :: "series \<Rightarrow> series \<Rightarrow> int \<Rightarrow> int" where
  "latestIdx m sg i =
     (if 0 \<le> i \<and> (m ! nat i = None \<or> sg ! nat i = None)
      then latestIdx m sg (i - 1) else i)"
  by pat_completeness auto
termination
  by (relation "measure (\<lambda>(m, sg, i). nat (i + 1))") auto

declare latestIdx.simps [simp del]

definition detectCross ::
  "real option \<Rightarrow> real option \<Rightarrow> real option \<Rightarrow> real option \<Rightarrow> cross_kind option" where
  "detectCross mPrev sPrev mNow sNow =
     (case (mPrev, sPrev, mNow, sNow) of
        (Some mp, Some sp, Some mn, Some sn) \<Rightarrow>
          (let c = (if mp < sp \<and> mn > sn then Some BullishCross else None)
           in if mp > sp \<and> mn < sn then Some BearishCross else c)
      | _ \<Rightarrow> None)"

text \<open>
  \<^verbatim>\<open>analyzeTicker\<close> after the fetch: \<open>None\<close> as argument is a fetch that returned
  \<^verbatim>\<open>null\<close>, \<open>None\<close> as result is the \<^verbatim>\<open>null\<close> the analyzer returns.
\<close>

definition analyzeTicker :: "real list option \<Rightarrow> analysis option" where
  "analyzeTicker data =
     (case data of
        None \<Rightarrow> None
      | Some closes \<Rightarrow>
          if length closes < MACD_SLOW + MACD_SIGNAL + 2 then None
          else
            let macdObj = macdSeries closes;
                j = latestIdx (macd macdObj) (signal macdObj) (int (length (macd macdObj)) - 1)
            in if j < 1 then None
               else
                 let i = nat j
                 in Some \<lparr>cross = detectCross (macd macdObj ! (i - 1)) (signal macdObj ! (i - 1))
                                              (macd macdObj ! i) (signal macdObj ! i),
                          macdNow = macd macdObj ! i,
                          signalNow = signal macdObj ! i,
                          histNow = hist macdObj ! i,
                          histPrev = hist macdObj ! (i - 1),
                          price = closes ! i,
                          prevPrice = closes ! (i - 1),
                          idx = i\<rparr>)"

section \<open>The alert gate of the MACD bot\<close>

text \<open>
  The module-level state \<^verbatim>\<open>lastAlertAt\<close>, \<^verbatim>\<open>dailyAlerts\<close> and \<^verbatim>\<open>lastDailyReset\<close>
  as one record that every operation takes and returns. The clock is explicit:
  \<open>today\<close> is what \<^verbatim>\<open>new Date().toDateString()\<close> gives and \<open>now\<close> what
  \<^verbatim>\<open>Date.now()\<close> gives (milliseconds) at the moment of the call.

  The two tuning constants \<^verbatim>\<open>MAX_ALERTS_PER_DAY\<close> and \<^verbatim>\<open>ALERT_COOLDOWN_MINUTES\<close>
  are parameters of \<open>canAlertWith\<close>, so that the gate can be run with another quota;
  \<open>canAlert\<close> is the gate of the source, at 20 and 15.
\<close>

type_synonym ticker = string

record alert_state =
  lastAlertAt :: "ticker \<rightharpoonup> int"
  dailyAlerts :: "ticker \<rightharpoonup> nat"
  lastDailyReset :: string

definition MAX_ALERTS_PER_DAY :: nat where "MAX_ALERTS_PER_DAY = 20"
definition ALERT_COOLDOWN_MINUTES :: real where "ALERT_COOLDOWN_MINUTES = 15"

definition resetDailyCounts :: "string \<Rightarrow> alert_state \<Rightarrow> alert_state" where
  "resetDailyCounts today st =
     (if today \<noteq> lastDailyReset st
      then st\<lparr>dailyAlerts := Map.empty, lastDailyReset := today\<rparr>
      else st)"

text \<open>\<^verbatim>\<open>dailyAlerts.get(ticker) || 0\<close>\<close>

definition countToday :: "alert_state \<Rightarrow> ticker \<Rightarrow> nat" where
  "countToday st t = (case dailyAlerts st t of None \<Rightarrow> 0 | Some c \<Rightarrow> c)"

text \<open>
  \<^verbatim>\<open>if (!last) return true;\<close> returns for a missing entry and for the number 0, so a
  stored timestamp 0 counts as no alert. (\<open>lastTs\<close> is the source's \<^verbatim>\<open>last\<close>.)
\<close>

definition canAlertWith ::
  "nat \<Rightarrow> real \<Rightarrow> string \<Rightarrow> int \<Rightarrow> ticker \<Rightarrow> alert_state \<Rightarrow> bool \<times> alert_state" where
  "canAlertWith maxPerDay cooldownMinutes today now t st =
     (let st' = resetDailyCounts today st
      in if countToday st' t \<ge> maxPerDay then (False, st')
         else
           (case lastAlertAt st' t of
              None \<Rightarrow> (True, st')
            | Some lastTs \<Rightarrow>
                if lastTs = 0 then (True, st')
                else
                  let diffMinutes = real_of_int (now - lastTs) / 60000
                  in (diffMinutes \<ge> cooldownMinutes, st')))"

definition canAlert :: "string \<Rightarrow> int \<Rightarrow> ticker \<Rightarrow> alert_state \<Rightarrow> bool \<times> alert_state" where
  "canAlert = canAlertWith MAX_ALERTS_PER_DAY ALERT_COOLDOWN_MINUTES"

definition recordAlert :: "int \<Rightarrow> ticker \<Rightarrow> alert_state \<Rightarrow> alert_state" where
  "recordAlert now t st =
     st\<lparr>lastAlertAt := (lastAlertAt st)(t \<mapsto> now),
        dailyAlerts := (dailyAlerts st)(t \<mapsto> countToday st t + 1)\<rparr>"


section \<open>One scan pass of the MACD bot\<close>

text \<open>
  A relational comparison of JavaScript converts \<^verbatim>\<open>null\<close> to 0 before comparing.
\<close>

definition toNumber :: "real option \<Rightarrow> real" where
  "toNumber v = (case v of None \<Rightarrow> 0 | Some x \<Rightarrow> x)"

definition js_gt :: "real option \<Rightarrow> real option \<Rightarrow> bool" where
  "js_gt a b = (toNumber a > toNumber b)"

text \<open>
  What the world gives the scan for one symbol: the fetched closes (\<open>None\<close> when the
  fetch fails), the day and the clock when \<^verbatim>\<open>canAlert\<close> runs, whether
  \<^verbatim>\<open>channel.send\<close> succeeds, and the clock when \<^verbatim>\<open>recordAlert\<close> runs.
\<close>

record scan_env =
  fetched :: "real list option"
  day :: string
  clock :: int
  sendOk :: bool
  sentAt :: int

datatype scan_outcome =
    NoData | NoCross | Skipped | IgnoredBearish | HistNotRising | PriceNotRising
  | AlertSent | SendFailed

text \<open>
  The body of the loop of \<^verbatim>\<open>runScanOnce\<close> for one symbol (\<open>symb\<close> is the source's
  \<^verbatim>\<open>sym\<close>), check by check.
\<close>

definition scanTicker :: "ticker \<Rightarrow> scan_env \<Rightarrow> alert_state \<Rightarrow> scan_outcome \<times> alert_state" where
  "scanTicker symb env st =
     (case analyzeTicker (fetched env) of
        None \<Rightarrow> (NoData, st)
      | Some res \<Rightarrow>
          if cross res = None then (NoCross, st)
          else
            (case canAlert (day env) (clock env) symb st of
               (tickerOk, st1) \<Rightarrow>
                 if \<not> tickerOk then (Skipped, st1)
                 else if cross res \<noteq> Some BullishCross then (IgnoredBearish, st1)
                 else if \<not> js_gt (histNow res) (histPrev res) then (HistNotRising, st1)
                 else if \<not> (price res > prevPrice res) then (PriceNotRising, st1)
                 else if sendOk env then (AlertSent, recordAlert (sentAt env) symb st1)
                 else (SendFailed, st1)))"

text \<open>
  An embed is built and handed to \<^verbatim>\<open>channel.send\<close> exactly in the last two
  outcomes.
\<close>

definition intentEmitted :: "scan_outcome \<Rightarrow> bool" where
  "intentEmitted out = (out = AlertSent \<or> out = SendFailed)"

fun runScanOnce ::
  "(ticker \<times> scan_env) list \<Rightarrow> alert_state \<Rightarrow> (ticker \<times> scan_outcome) list \<times> alert_state" where
  "runScanOnce [] st = ([], st)"
| "runScanOnce ((symb, env) # rest) st =
     (case scanTicker symb env st of
        (out, st1) \<Rightarrow>
          (case runScanOnce rest st1 of (outs, st2) \<Rightarrow> ((symb, out) # outs, st2)))"

definition intents :: "(ticker \<times> scan_outcome) list \<Rightarrow> ticker list" where
  "intents outs = map fst (filter (\<lambda>(symb, out). intentEmitted out) outs)"

section \<open>Who starts a scan pass\<close>

text \<open>
  The handlers of the MACD bot that touch \<^verbatim>\<open>scanning\<close> or call \<^verbatim>\<open>runScanOnce\<close>, as
  steps of a state machine. JavaScript runs a handler up to its next \<^verbatim>\<open>await\<close>
  without interleaving; a pass awaits the fetch of every symbol, so other handlers run
  while it is in flight. Besides the flag \<^verbatim>\<open>scanning\<close> the state counts what the source
  keeps no count of: the calls of \<^verbatim>\<open>startLoop\<close> suspended at their
  \<^verbatim>\<open>await client.channels.fetch\<close>, the interval timers installed by \<^verbatim>\<open>setInterval\<close>,
  and the calls of \<^verbatim>\<open>runScanOnce\<close> that have started and not finished.
  \<^verbatim>\<open>stopLoop\<close> is defined in the source and called nowhere; it is not a step.
\<close>

record sched =
  scanning :: bool
  starting :: nat
  timers :: nat
  inFlight :: nat

datatype event = StartLoop | ChannelFetched | TimerTick | ScanNow | ScanFinished

definition sched0 :: sched where
  "sched0 = \<lparr>scanning = False, starting = 0, timers = 0, inFlight = 0\<rparr>"

text \<open>
  \<^item> \<open>StartLoop\<close>: \<^verbatim>\<open>startLoop\<close> up to its \<^verbatim>\<open>await\<close>: it returns at once when
    \<^verbatim>\<open>scanning\<close> is set, and sets it otherwise.
  \<^item> \<open>ChannelFetched\<close>: the rest of \<^verbatim>\<open>startLoop\<close>: it calls \<^verbatim>\<open>runScanOnce(channel)\<close>
    without awaiting it and installs the interval timer.
  \<^item> \<open>TimerTick\<close>: the interval callback calls \<^verbatim>\<open>runScanOnce(channel)\<close>; it tests
    nothing.
  \<^item> \<open>ScanNow\<close>: the \<^verbatim>\<open>scan-now\<close> handler calls \<^verbatim>\<open>runScanOnce(channel, WATCHLIST)\<close>;
    it tests nothing.
  \<^item> \<open>ScanFinished\<close>: a pass in flight returns.
\<close>

fun step :: "event \<Rightarrow> sched \<Rightarrow> sched" where
  "step StartLoop s =
     (if scanning s then s else s\<lparr>scanning := True, starting := starting s + 1\<rparr>)"
| "step ChannelFetched s =
     (if 0 < starting s
      then s\<lparr>starting := starting s - 1, timers := timers s + 1, inFlight := inFlight s + 1\<rparr>
      else s)"
| "step TimerTick s =
     (if 0 < timers s then s\<lparr>inFlight := inFlight s + 1\<rparr> else s)"
| "step ScanNow s = s\<lparr>inFlight := inFlight s + 1\<rparr>"
| "step ScanFinished s =
     (if 0 < inFlight s then s\<lparr>inFlight := inFlight s - 1\<rparr> else s)"

fun run :: "event list \<Rightarrow> sched \<Rightarrow> sched" where
  "run [] s = s"
| "run (e # es) s = run es (step e s)"

section \<open>The momentum scanner\<close>

subsection \<open>The backoff rate limiter\<close>

text \<open>
  The class \<^verbatim>\<open>RateLimiter\<close> of the momentum scanner. Times are milliseconds, as real
  numbers since \<^verbatim>\<open>backoffDelay\<close> leaves the integers after a few growth steps.
\<close>

record backoff_limiter =
  lastRequest :: "real option"
  minDelay :: real
  backoffDelay :: real
  rateLimited :: bool

definition newRateLimiter :: backoff_limiter where
  "newRateLimiter =
     \<lparr>lastRequest = None, minDelay = 1000, backoffDelay = 5000, rateLimited = False\<rparr>"

text \<open>
  \<^verbatim>\<open>wait()\<close> takes the clock at its call and returns the limiter together with the
  clock at its return. \<^verbatim>\<open>await new Promise((res) => setTimeout(res, d))\<close> is a timer
  that fires after exactly \<open>d\<close> milliseconds (a real timer fires no earlier).
  \<^verbatim>\<open>if (this.lastRequest)\<close> fails for \<^verbatim>\<open>null\<close> and for 0.
\<close>

definition wait :: "real \<Rightarrow> backoff_limiter \<Rightarrow> backoff_limiter \<times> real" where
  "wait now rl =
     (let (rl1, t1) =
            (if rateLimited rl then (rl\<lparr>rateLimited := False\<rparr>, now + backoffDelay rl)
             else (rl, now));
          t2 = (case lastRequest rl1 of
                  None \<Rightarrow> t1
                | Some lr \<Rightarrow>
                    if lr = 0 then t1
                    else
                      let elapsed = t1 - lr
                      in if elapsed < minDelay rl1 then t1 + (minDelay rl1 - elapsed) else t1)
      in (rl1\<lparr>lastRequest := Some t2\<rparr>, t2))"

definition markRateLimited :: "backoff_limiter \<Rightarrow> backoff_limiter" where
  "markRateLimited rl =
     rl\<lparr>rateLimited := True, backoffDelay := min (backoffDelay rl * 1.5) 30000\<rparr>"

definition reset :: "backoff_limiter \<Rightarrow> backoff_limiter" where
  "reset rl = rl\<lparr>backoffDelay := 5000\<rparr>"

text \<open>The limiters the program can hold: the constructor's, and what the methods make of one.\<close>

inductive limiter_reachable :: "backoff_limiter \<Rightarrow> bool" where
  init: "limiter_reachable newRateLimiter"
| after_wait: "limiter_reachable rl \<Longrightarrow> limiter_reachable (fst (wait now rl))"
| after_mark: "limiter_reachable rl \<Longrightarrow> limiter_reachable (markRateLimited rl)"
| after_reset: "limiter_reachable rl \<Longrightarrow> limiter_reachable (reset rl)"

subsection \<open>The alert gate of the scanner\<close>

record scanner_state =
  alertHistory :: "ticker \<rightharpoonup> int"
  alertCounter :: "ticker \<rightharpoonup> nat"
  lastReset :: string

definition MAX_ALERTS_PER_STOCK :: nat where "MAX_ALERTS_PER_STOCK = 20"

definition resetDailyCounters :: "string \<Rightarrow> scanner_state \<Rightarrow> scanner_state" where
  "resetDailyCounters today sc =
     (if today \<noteq> lastReset sc
      then sc\<lparr>alertCounter := Map.empty, lastReset := today\<rparr>
      else sc)"

text \<open>Here the test is \<^verbatim>\<open>alertHistory.has(ticker)\<close>, so a stored 0 is an alert too.\<close>

definition canSendAlert :: "string \<Rightarrow> int \<Rightarrow> ticker \<Rightarrow> scanner_state \<Rightarrow> bool \<times> scanner_state" where
  "canSendAlert today now t sc =
     (let sc' = resetDailyCounters today sc
      in if (case alertCounter sc' t of None \<Rightarrow> 0 | Some c \<Rightarrow> c) \<ge> MAX_ALERTS_PER_STOCK
         then (False, sc')
         else
           (case alertHistory sc' t of
              None \<Rightarrow> (True, sc')
            | Some lastTs \<Rightarrow>
                let diff = real_of_int (now - lastTs) / 60000
                in if diff < ALERT_COOLDOWN_MINUTES then (False, sc') else (True, sc')))"

subsection \<open>The momentum check\<close>

definition MIN_VOLUME :: real where "MIN_VOLUME = 500000"
definition MIN_PRICE_CHANGE :: real where "MIN_PRICE_CHANGE = 5.0"
definition MIN_REL_VOLUME :: real where "MIN_REL_VOLUME = 1.3"
definition MAX_PRICE :: real where "MAX_PRICE = 1000"
definition MIN_PRICE :: real where "MIN_PRICE = 0.01"

text \<open>
  The numeric fields of the object \<^verbatim>\<open>getStockData\<close> builds; \<open>None\<close> below is the
  \<^verbatim>\<open>null\<close> it returns when both attempts fail.
\<close>

record stock_data =
  price :: real
  change_pct :: real
  volume :: real
  rel_volume :: real

definition checkMomentum :: "stock_data option \<Rightarrow> bool \<times> string" where
  "checkMomentum data =
     (case data of
        None \<Rightarrow> (False, ''No data'')
      | Some d \<Rightarrow>
          if price d > MAX_PRICE then (False, ''Price too high'')
          else if price d < MIN_PRICE then (False, ''Price too low'')
          else if volume d < MIN_VOLUME then (False, ''Volume too low'')
          else if \<bar>change_pct d\<bar> < MIN_PRICE_CHANGE then (False, ''Move too small'')
          else if rel_volume d < MIN_REL_VOLUME then (False, ''RelVol too low'')
          else (True, ''Momentum detected!''))"

section \<open>The confirmation policy, as the specification words it\<close>

text \<open>
  \<open>definedLess a b\<close>: both values are defined and \<open>a\<close> is strictly below \<open>b\<close>.
  \<open>confirmedBullish c\<close> says of a price history \<open>c\<close>, with \<open>i\<close> its last index:
  the history is long enough, the MACD line crosses the signal line upwards between
  \<open>i - 1\<close> and \<open>i\<close>, the histogram is strictly higher at \<open>i\<close> than at \<open>i - 1\<close>, and
  the last close is strictly above the one before.
\<close>

definition definedLess :: "real option \<Rightarrow> real option \<Rightarrow> bool" where
  "definedLess a b = (case a of None \<Rightarrow> False | Some x \<Rightarrow> (case b of None \<Rightarrow> False | Some y \<Rightarrow> x < y))"

definition confirmedBullish :: "real list \<Rightarrow> bool" where
  "confirmedBullish c =
     (MACD_SLOW + MACD_SIGNAL + 2 \<le> length c \<and>
      (let f = macdSeries c; i = length c - 1
       in definedLess (macd f ! (i - 1)) (signal f ! (i - 1)) \<and>
          definedLess (signal f ! i) (macd f ! i) \<and>
          definedLess (hist f ! (i - 1)) (hist f ! i) \<and>
          c ! (i - 1) < c ! i))"

section \<open>Auxiliary definitions for the proofs\<close>

text \<open>
  The values the loop of \<^verbatim>\<open>emaSeries\<close> writes, as a list: one value per remaining
  input, each from the one before. \<open>emaLoop_eq\<close> below shows that the loop over the
  array produces exactly this list behind the slots it leaves alone.
\<close>

fun emaTail :: "real \<Rightarrow> real \<Rightarrow> real list \<Rightarrow> series" where
  "emaTail k prev [] = []"
| "emaTail k prev (x # xs) = Some (x * k + prev * (1 - k)) # emaTail k (x * k + prev * (1 - k)) xs"

text \<open>
  Two price histories of 37 daily closes: 36 bars falling by one a day from 100 and a
  last bar at 80, and 36 bars rising by two a day from 100 and a last bar at 140.
\<close>

definition closesUp :: "real list" where
  "closesUp = map (\<lambda>i. 100 - real i) [0..<36] @ [80]"

definition closesDown :: "real list" where
  "closesDown = map (\<lambda>i. 100 + 2 * real i) [0..<36] @ [140]"

text \<open>
  A gate with no alert on record, and what the world gives the scan for a symbol whose
  fetch returns one of the two histories.
\<close>

definition gate0 :: alert_state where
  "gate0 = \<lparr>lastAlertAt = Map.empty, dailyAlerts = Map.empty,
            lastDailyReset = ''Mon Nov 02 2026''\<rparr>"

definition envUp :: scan_env where
  "envUp = \<lparr>fetched = Some closesUp, day = ''Mon Nov 02 2026'', clock = 1000,
            sendOk = True, sentAt = 1001\<rparr>"

definition envDown :: scan_env where
  "envDown = \<lparr>fetched = Some closesDown, day = ''Mon Nov 02 2026'', clock = 2000,
              sendOk = True, sentAt = 2001\<rparr>"

text \<open>
  The two gates on a Sunday evening: three alerts for one ticker on that day, the
  last at clock 1000000.
\<close>

definition gateSunday :: alert_state where
  "gateSunday = \<lparr>lastAlertAt = [''AAPL'' \<mapsto> 1000000], dailyAlerts = [''AAPL'' \<mapsto> 3],
                 lastDailyReset = ''Sun Nov 01 2026''\<rparr>"

definition scannerSunday :: scanner_state where
  "scannerSunday = \<lparr>alertHistory = [''AAPL'' \<mapsto> 1000000], alertCounter = [''AAPL'' \<mapsto> 3],
                    lastReset = ''Sun Nov 01 2026''\<rparr>"

section \<open>The EMA series in the arithmetic of the program\<close>

text \<open>
  A JavaScript number is an IEEE 754 double, and every arithmetic operation returns the
  double nearest to the exact result, a tie going to the even significand. \<open>fl\<close> is
  that rounding on the reals: \<open>n\<close> is the magnitude in units of \<open>2 powi - 1074\<close>, the
  smallest positive double; \<open>d\<close> is the number of its bits beyond the 53 a significand
  holds; the result is the multiple of \<open>2 powi (d - 1074)\<close> nearest to \<open>x\<close>. It is
  the program's rounding for results of magnitude below \<open>2 ^ 1024\<close>; infinities and
  NaN are not represented.
\<close>

definition roundEven :: "real \<Rightarrow> int" where
  "roundEven q =
     (let f = \<lfloor>q\<rfloor>; r = q - real_of_int f
      in if r < 1 / 2 then f
         else if r > 1 / 2 then f + 1
         else if even f then f else f + 1)"

definition fl :: "real \<Rightarrow> real" where
  "fl x =
     (let n = \<lfloor>\<bar>x\<bar> * 2 ^ 1074\<rfloor>;
          d = max 0 (bitlen n - 53);
          u = 2 powi (d - 1074)
      in real_of_int (roundEven (x / u)) * u)"

text \<open>
  \<^verbatim>\<open>emaSeries\<close> once more, operation by operation, with the rounding \<open>rnd\<close> applied to
  the result of each: \<^verbatim>\<open>reduce((a,b)=>a+b,0)\<close> adds from the left starting at 0, then
  comes the division by \<^verbatim>\<open>period\<close>; \<^verbatim>\<open>2 / (period + 1)\<close> is one division (the sum is
  an exact small integer); \<^verbatim>\<open>values[i] * k + prev * (1 - k)\<close> is a subtraction, two
  products and a sum. With \<open>fl\<close> for \<open>rnd\<close> this is the function the program runs on
  doubles; with the identity it is \<open>emaSeries\<close> above (\<open>emaSeriesWith_exact\<close> below).
\<close>

function emaLoopWith ::
  "(real \<Rightarrow> real) \<Rightarrow> real list \<Rightarrow> real \<Rightarrow> nat \<Rightarrow> real \<Rightarrow> series \<Rightarrow> series" where
  "emaLoopWith rnd values k i prev out =
     (if i < length values
      then (let prev' = rnd (rnd (values ! i * k) + rnd (prev * rnd (1 - k)))
            in emaLoopWith rnd values k (Suc i) prev' (out[i := Some prev']))
      else out)"
  by pat_completeness auto
termination
  by (relation "measure (\<lambda>(rnd, values, k, i, prev, out). length values - i)") auto

declare emaLoopWith.simps [simp del]

definition emaSeriesWith :: "(real \<Rightarrow> real) \<Rightarrow> real list \<Rightarrow> nat \<Rightarrow> series" where
  "emaSeriesWith rnd values period =
     (let out = replicate (length values) None in
      if length values < period then out
      else
        let prev = rnd (foldl (\<lambda>a b. rnd (a + b)) 0 (take period values) / real period);
            out1 = out[period - 1 := Some prev];
            k = rnd (2 / (real period + 1))
        in emaLoopWith rnd values k period prev out1)"

text \<open>The double the program reads the literal \<^verbatim>\<open>0.1\<close> as.\<close>

definition tenth :: real where
  "tenth = fl (1 / 10)"

section \<open>Properties of the EMA series\<close>

text \<open>
  The loop keeps the length of \<open>out\<close>, leaves the slots below its start index alone and
  writes the recurrence value into every slot from there on.
\<close>

lemma length_emaLoop: "length (emaLoop vs k i prev out) = length out"
proof (induction vs k i prev out rule: emaLoop.induct)
  case (1 vs k i prev out)
  show ?case
  proof (cases "i < length vs")
    case True
    with "1.IH" [OF True refl] show ?thesis
      by (subst emaLoop.simps) (simp add: Let_def)
  next
    case False
    then show ?thesis by (subst emaLoop.simps) simp
  qed
qed

lemma emaLoop_below: "j < i \<Longrightarrow> emaLoop vs k i prev out ! j = out ! j"
proof (induction vs k i prev out rule: emaLoop.induct)
  case (1 vs k i prev out)
  show ?case
  proof (cases "i < length vs")
    case True
    from "1.prems" have "j < Suc i" by simp
    with "1.IH" [OF True refl] "1.prems" show ?thesis
      by (subst emaLoop.simps) (simp add: Let_def True)
  next
    case False
    then show ?thesis by (subst emaLoop.simps) simp
  qed
qed

lemma emaLoop_at:
  assumes "i < length vs" "length out = length vs"
  shows "emaLoop vs k i prev out ! i = Some (vs ! i * k + prev * (1 - k))"
proof -
  have "emaLoop vs k i prev out ! i =
        emaLoop vs k (Suc i) (vs ! i * k + prev * (1 - k))
          (out[i := Some (vs ! i * k + prev * (1 - k))]) ! i"
    using assms(1) by (subst emaLoop.simps) (simp add: Let_def)
  also have "\<dots> = out[i := Some (vs ! i * k + prev * (1 - k))] ! i"
    by (rule emaLoop_below) simp
  also have "\<dots> = Some (vs ! i * k + prev * (1 - k))"
    using assms by simp
  finally show ?thesis .
qed

lemma emaLoop_step:
  "i \<le> j \<Longrightarrow> Suc j < length vs \<Longrightarrow> length out = length vs \<Longrightarrow>
   \<exists>p. emaLoop vs k i prev out ! j = Some p \<and>
       emaLoop vs k i prev out ! Suc j = Some (vs ! Suc j * k + p * (1 - k))"
proof (induction vs k i prev out rule: emaLoop.induct)
  case (1 vs k i prev out)
  let ?p = "vs ! i * k + prev * (1 - k)"
  let ?out = "out[i := Some ?p]"
  from "1.prems" have lt: "i < length vs" by simp
  have unfold: "emaLoop vs k i prev out = emaLoop vs k (Suc i) ?p ?out"
    using lt by (subst emaLoop.simps) (simp add: Let_def)
  have len: "length ?out = length vs" using "1.prems" by simp
  show ?case
  proof (cases "j = i")
    case True
    have a: "emaLoop vs k (Suc i) ?p ?out ! i = Some ?p"
      using lt "1.prems"(3) by (simp add: emaLoop_below)
    have b: "emaLoop vs k (Suc i) ?p ?out ! Suc i = Some (vs ! Suc i * k + ?p * (1 - k))"
      using "1.prems" True len by (intro emaLoop_at) simp_all
    show ?thesis unfolding unfold using a b True by simp
  next
    case False
    with "1.prems" have "Suc i \<le> j" by simp
    from "1.IH" [OF lt refl this "1.prems"(2) len] show ?thesis
      unfolding unfold .
  qed
qed

lemma length_emaSeries: "length (emaSeries vs period) = length vs"
  by (simp add: emaSeries_def Let_def length_emaLoop)

lemma emaSeries_short: "length vs < period \<Longrightarrow> emaSeries vs period = replicate (length vs) None"
  by (simp add: emaSeries_def)

lemma emaSeries_before:
  assumes "period \<le> length vs" "i < period - 1"
  shows "emaSeries vs period ! i = None"
  using assms by (simp add: emaSeries_def Let_def emaLoop_below)

lemma emaSeries_seed:
  assumes "0 < period" "period \<le> length vs"
  shows "emaSeries vs period ! (period - 1) = Some (sum_list (take period vs) / real period)"
  using assms by (simp add: emaSeries_def Let_def emaLoop_below)

lemma emaSeries_next:
  assumes "0 < period" "period \<le> i" "i < length vs"
  shows "\<exists>p. emaSeries vs period ! (i - 1) = Some p \<and>
          emaSeries vs period ! i =
            Some (vs ! i * (2 / (real period + 1)) + p * (1 - 2 / (real period + 1)))"
proof (cases "i = period")
  case True
  have "emaSeries vs period ! i =
        Some (vs ! i * (2 / (real period + 1)) +
              (sum_list (take period vs) / real period) * (1 - 2 / (real period + 1)))"
    using assms True by (simp add: emaSeries_def Let_def emaLoop_at)
  with emaSeries_seed [of period vs] assms True show ?thesis by simp
next
  case False
  with assms obtain j where j: "i = Suc j" "period \<le> j" by (cases i) auto
  have "\<exists>p. emaLoop vs (2 / (real period + 1)) period (sum_list (take period vs) / real period)
               ((replicate (length vs) None)[period - 1 := Some (sum_list (take period vs) / real period)]) ! j = Some p \<and>
            emaLoop vs (2 / (real period + 1)) period (sum_list (take period vs) / real period)
               ((replicate (length vs) None)[period - 1 := Some (sum_list (take period vs) / real period)]) ! Suc j =
              Some (vs ! Suc j * (2 / (real period + 1)) + p * (1 - 2 / (real period + 1)))"
    using assms j by (intro emaLoop_step) simp_all
  then show ?thesis using assms j by (simp add: emaSeries_def Let_def)
qed

lemma emaSeries_defined:
  assumes "0 < period" "period \<le> length vs" "period - 1 \<le> i" "i < length vs"
  shows "\<exists>x. emaSeries vs period ! i = Some x"
proof (cases "i = period - 1")
  case True
  then show ?thesis using emaSeries_seed [OF assms(1,2)] by simp
next
  case False
  with assms have "period \<le> i" by simp
  from emaSeries_next [OF assms(1) this assms(4)] show ?thesis by blast
qed

lemma sum_list_constant: "\<forall>x\<in>set xs. x = v \<Longrightarrow> sum_list xs = real (length xs) * (v::real)"
  by (induction xs) (simp_all add: algebra_simps)

lemma emaSeries_constant:
  assumes "0 < period" "period \<le> length vs" "\<forall>x\<in>set vs. x = v"
  shows "period - 1 \<le> i \<Longrightarrow> i < length vs \<Longrightarrow> emaSeries vs period ! i = Some v"
proof (induction i)
  case 0
  with assms(1) have p1: "period = 1" by simp
  have "\<forall>x\<in>set (take period vs). x = v"
    using assms(3) by (meson in_set_takeD)
  then have "sum_list (take period vs) = real (length (take period vs)) * v"
    by (rule sum_list_constant)
  with emaSeries_seed [OF assms(1,2)] p1 assms(2) show ?case by simp
next
  case (Suc i)
  show ?case
  proof (cases "Suc i = period - 1")
    case True
    have "\<forall>x\<in>set (take period vs). x = v"
      using assms(3) by (meson in_set_takeD)
    then have "sum_list (take period vs) = real (length (take period vs)) * v"
      by (rule sum_list_constant)
    with emaSeries_seed [OF assms(1,2)] True assms(1,2) show ?thesis by simp
  next
    case False
    with Suc.prems have le: "period \<le> Suc i" by simp
    then have "period - 1 \<le> i" by simp
    with Suc have prev: "emaSeries vs period ! i = Some v" by simp
    from Suc.prems assms(3) have cur: "vs ! Suc i = v" by simp
    from emaSeries_next [OF assms(1) le Suc.prems(2)] prev cur
    have "emaSeries vs period ! Suc i =
            Some (v * (2 / (real period + 1)) + v * (1 - 2 / (real period + 1)))"
      by simp
    then show ?thesis by (simp add: algebra_simps)
  qed
qed

section \<open>The EMA series on doubles\<close>

text \<open>
  Once the binary exponent of \<open>x\<close> is known, \<open>fl x\<close> is a rounding to an integer: with
  \<open>\<bar>x\<bar> / 2 powi e\<close> between \<open>2 ^ 52\<close> and \<open>2 ^ 53\<close>, the unit in the last place is
  \<open>2 powi e\<close>.
\<close>

lemma bitlen_eqI:
  assumes "2 ^ k \<le> n" "n < 2 ^ Suc k"
  shows "bitlen n = int k + 1"
proof (rule antisym)
  from assms(2) show "bitlen n \<le> int k + 1"
    by (simp add: bitlen_le_iff_power nat_add_distrib)
  from assms(1) show "int k + 1 \<le> bitlen n"
    by (simp add: bitlen_ge_iff_power nat_add_distrib)
qed

lemma fl_eval:
  assumes "2 ^ 52 \<le> \<bar>x\<bar> / 2 powi e" "\<bar>x\<bar> / 2 powi e < 2 ^ 53" "- 1074 \<le> e"
  shows "fl x = real_of_int (roundEven (x / 2 powi e)) * 2 powi e"
proof -
  define j where "j = nat (e + 1074)"
  define q where "q = \<bar>x\<bar> / 2 powi e"
  define B :: real where "B = 2 ^ 1074"
  from assms(3) have e: "e = int j - 1074" by (simp add: j_def)
  have B: "0 < B" by (simp add: B_def)
  have "(2::real) powi e = 2 powi (int j) / 2 powi 1074"
    unfolding e by (rule power_int_diff) simp
  also have "(2::real) powi 1074 = B"
    unfolding B_def by (metis of_nat_numeral power_int_of_nat)
  finally have p: "(2::real) powi e = 2 ^ j / B" by simp
  have s: "\<bar>x\<bar> * B = q * 2 ^ j"
    unfolding q_def p using B by (simp add: field_simps)
  from assms(1) have "2 ^ 52 * 2 ^ j \<le> q * (2::real) ^ j"
    unfolding q_def by (intro mult_right_mono) simp_all
  moreover have "(2::real) ^ 52 * 2 ^ j = 2 ^ (j + 52)"
    by (simp only: power_add mult.commute)
  ultimately have lo: "(2::real) ^ (j + 52) \<le> \<bar>x\<bar> * B"
    unfolding s by (simp only:)
  from assms(2) have "q * (2::real) ^ j < 2 ^ 53 * 2 ^ j"
    unfolding q_def by (intro mult_strict_right_mono) simp_all
  moreover have "(2::real) ^ 53 * 2 ^ j = 2 ^ Suc (j + 52)"
  proof -
    have "Suc (j + 52) = 53 + j" by simp
    then show ?thesis by (simp only: power_add)
  qed
  ultimately have hi: "\<bar>x\<bar> * B < (2::real) ^ Suc (j + 52)"
    unfolding s by (simp only:)
  let ?n = "\<lfloor>\<bar>x\<bar> * B\<rfloor>"
  from lo have "real_of_int (2 ^ (j + 52)) \<le> \<bar>x\<bar> * B" by (simp only: of_int_power of_int_numeral)
  then have n1: "2 ^ (j + 52) \<le> ?n" by (simp only: le_floor_iff)
  from hi have "\<bar>x\<bar> * B < real_of_int (2 ^ Suc (j + 52))"
    by (simp only: of_int_power of_int_numeral)
  then have n2: "?n < 2 ^ Suc (j + 52)" by (simp only: floor_less_iff)
  from bitlen_eqI [OF n1 n2] have "bitlen ?n = int (j + 52) + 1" .
  then have "max 0 (bitlen ?n - 53) - 1074 = e"
    by (simp add: e)
  then show ?thesis unfolding fl_def Let_def B_def by (simp only:)
qed

lemma tenth_eq: "tenth = 3602879701896397 / 36028797018963968"
  unfolding tenth_def
  by (subst fl_eval [of _ "- 56"]) (simp_all add: roundEven_def)

lemma fl_small_values: "fl 1 = 1" "fl 2 = 2" "fl 3 = 3" "fl (1 / 2) = 1 / 2"
proof -
  show "fl 1 = 1" by (subst fl_eval [of _ "- 52"]) (simp_all add: roundEven_def)
  show "fl 2 = 2" by (subst fl_eval [of _ "- 51"]) (simp_all add: roundEven_def)
  show "fl 3 = 3" by (subst fl_eval [of _ "- 51"]) (simp_all add: roundEven_def)
  show "fl (1 / 2) = 1 / 2" by (subst fl_eval [of _ "- 53"]) (simp_all add: roundEven_def)
qed

lemma fl_tenth_sums:
  "fl (3602879701896397 / 36028797018963968) = 3602879701896397 / 36028797018963968"
  "fl (3602879701896397 / 18014398509481984) = 3602879701896397 / 18014398509481984"
  "fl (10808639105689191 / 36028797018963968) = 1351079888211149 / 4503599627370496"
  "fl (1351079888211149 / 13510798882111488) = 7205759403792795 / 72057594037927936"
proof -
  show "fl (3602879701896397 / 36028797018963968) = 3602879701896397 / 36028797018963968"
    by (subst fl_eval [of _ "- 56"]) (simp_all add: roundEven_def)
  show "fl (3602879701896397 / 18014398509481984) = 3602879701896397 / 18014398509481984"
    by (subst fl_eval [of _ "- 55"]) (simp_all add: roundEven_def)
  show "fl (10808639105689191 / 36028797018963968) = 1351079888211149 / 4503599627370496"
    by (subst fl_eval [of _ "- 54"]) (simp_all add: roundEven_def)
  show "fl (1351079888211149 / 13510798882111488) = 7205759403792795 / 72057594037927936"
    by (subst fl_eval [of _ "- 56"]) (simp_all add: roundEven_def)
qed

lemma length_emaLoopWith: "length (emaLoopWith rnd vs k i prev out) = length out"
proof (induction rnd vs k i prev out rule: emaLoopWith.induct)
  case (1 rnd vs k i prev out)
  show ?case
  proof (cases "i < length vs")
    case True
    with "1.IH" [OF True refl] show ?thesis
      by (subst emaLoopWith.simps) (simp add: Let_def)
  next
    case False
    then show ?thesis by (subst emaLoopWith.simps) simp
  qed
qed

lemma emaLoopWith_below: "j < i \<Longrightarrow> emaLoopWith rnd vs k i prev out ! j = out ! j"
proof (induction rnd vs k i prev out rule: emaLoopWith.induct)
  case (1 rnd vs k i prev out)
  show ?case
  proof (cases "i < length vs")
    case True
    from "1.prems" have "j < Suc i" by simp
    with "1.IH" [OF True refl] "1.prems" show ?thesis
      by (subst emaLoopWith.simps) (simp add: Let_def True)
  next
    case False
    then show ?thesis by (subst emaLoopWith.simps) simp
  qed
qed

lemma emaLoopWith_at:
  assumes "i < length vs" "length out = length vs"
  shows "emaLoopWith rnd vs k i prev out ! i =
           Some (rnd (rnd (vs ! i * k) + rnd (prev * rnd (1 - k))))"
proof -
  let ?p = "rnd (rnd (vs ! i * k) + rnd (prev * rnd (1 - k)))"
  have "emaLoopWith rnd vs k i prev out ! i =
        emaLoopWith rnd vs k (Suc i) ?p (out[i := Some ?p]) ! i"
    using assms(1) by (subst emaLoopWith.simps) (simp add: Let_def)
  also have "\<dots> = out[i := Some ?p] ! i"
    by (rule emaLoopWith_below) simp
  also have "\<dots> = Some ?p"
    using assms by simp
  finally show ?thesis .
qed

lemma emaLoopWith_step:
  "i \<le> j \<Longrightarrow> Suc j < length vs \<Longrightarrow> length out = length vs \<Longrightarrow>
   \<exists>p. emaLoopWith rnd vs k i prev out ! j = Some p \<and>
       emaLoopWith rnd vs k i prev out ! Suc j =
         Some (rnd (rnd (vs ! Suc j * k) + rnd (p * rnd (1 - k))))"
proof (induction rnd vs k i prev out rule: emaLoopWith.induct)
  case (1 rnd vs k i prev out)
  let ?p = "rnd (rnd (vs ! i * k) + rnd (prev * rnd (1 - k)))"
  let ?out = "out[i := Some ?p]"
  from "1.prems" have lt: "i < length vs" by simp
  have unfold: "emaLoopWith rnd vs k i prev out = emaLoopWith rnd vs k (Suc i) ?p ?out"
    using lt by (subst emaLoopWith.simps) (simp add: Let_def)
  have len: "length ?out = length vs" using "1.prems" by simp
  show ?case
  proof (cases "j = i")
    case True
    have a: "emaLoopWith rnd vs k (Suc i) ?p ?out ! i = Some ?p"
      using lt "1.prems"(3) by (simp add: emaLoopWith_below)
    have b: "emaLoopWith rnd vs k (Suc i) ?p ?out ! Suc i =
               Some (rnd (rnd (vs ! Suc i * k) + rnd (?p * rnd (1 - k))))"
      using "1.prems" True len by (intro emaLoopWith_at) simp_all
    show ?thesis unfolding unfold using a b True by simp
  next
    case False
    with "1.prems" have "Suc i \<le> j" by simp
    from "1.IH" [OF lt refl this "1.prems"(2) len] show ?thesis
      unfolding unfold .
  qed
qed

lemma emaSeriesWith_seed:
  assumes "0 < period" "period \<le> length vs"
  shows "emaSeriesWith rnd vs period ! (period - 1) =
           Some (rnd (foldl (\<lambda>a b. rnd (a + b)) 0 (take period vs) / real period))"
  using assms by (simp add: emaSeriesWith_def Let_def emaLoopWith_below)

lemma emaSeriesWith_next:
  assumes "0 < period" "period \<le> i" "i < length vs"
  shows "\<exists>p. emaSeriesWith rnd vs period ! (i - 1) = Some p \<and>
          emaSeriesWith rnd vs period ! i =
            Some (rnd (rnd (vs ! i * rnd (2 / (real period + 1))) +
                       rnd (p * rnd (1 - rnd (2 / (real period + 1))))))"
proof (cases "i = period")
  case True
  have "emaSeriesWith rnd vs period ! i =
        Some (rnd (rnd (vs ! i * rnd (2 / (real period + 1))) +
                   rnd (rnd (foldl (\<lambda>a b. rnd (a + b)) 0 (take period vs) / real period) *
                        rnd (1 - rnd (2 / (real period + 1))))))"
    using assms True by (simp add: emaSeriesWith_def Let_def emaLoopWith_at)
  with emaSeriesWith_seed [of period vs rnd] assms True show ?thesis by simp
next
  case False
  with assms obtain j where j: "i = Suc j" "period \<le> j" by (cases i) auto
  let ?s = "rnd (foldl (\<lambda>a b. rnd (a + b)) 0 (take period vs) / real period)"
  let ?k = "rnd (2 / (real period + 1))"
  let ?out = "(replicate (length vs) None)[period - 1 := Some ?s]"
  have "\<exists>p. emaLoopWith rnd vs ?k period ?s ?out ! j = Some p \<and>
            emaLoopWith rnd vs ?k period ?s ?out ! Suc j =
              Some (rnd (rnd (vs ! Suc j * ?k) + rnd (p * rnd (1 - ?k))))"
    using assms j by (intro emaLoopWith_step) simp_all
  then show ?thesis using assms j by (simp add: emaSeriesWith_def Let_def)
qed

lemma emaSeriesWith_constant:
  assumes "0 < period" "period \<le> length vs" "\<forall>x\<in>set vs. x = v"
    and seed: "rnd (foldl (\<lambda>a b. rnd (a + b)) 0 (take period vs) / real period) = v"
    and stay: "rnd (rnd (v * rnd (2 / (real period + 1))) +
                   rnd (v * rnd (1 - rnd (2 / (real period + 1))))) = v"
  shows "period - 1 \<le> i \<Longrightarrow> i < length vs \<Longrightarrow> emaSeriesWith rnd vs period ! i = Some v"
proof (induction i)
  case 0
  with assms(1) have "period - 1 = 0" by simp
  with emaSeriesWith_seed [OF assms(1,2), of rnd] seed show ?case by simp
next
  case (Suc i)
  show ?case
  proof (cases "Suc i = period - 1")
    case True
    with emaSeriesWith_seed [OF assms(1,2), of rnd] seed show ?thesis by simp
  next
    case False
    with Suc.prems have le: "period \<le> Suc i" by simp
    then have "period - 1 \<le> i" by simp
    with Suc have prev: "emaSeriesWith rnd vs period ! i = Some v" by simp
    from Suc.prems assms(3) have cur: "vs ! Suc i = v" by simp
    from emaSeriesWith_next [OF assms(1) le Suc.prems(2), of rnd] prev cur stay
    show ?thesis by simp
  qed
qed

lemma foldl_plus: "foldl (\<lambda>a b. a + b) a xs = a + sum_list (xs::real list)"
  by (induction xs arbitrary: a) simp_all

lemma emaLoopWith_exact: "emaLoopWith (\<lambda>x. x) vs k i prev out = emaLoop vs k i prev out"
proof (induction vs k i prev out rule: emaLoop.induct)
  case (1 vs k i prev out)
  show ?case
  proof (cases "i < length vs")
    case True
    with "1.IH" [OF True refl] show ?thesis
      by (subst emaLoopWith.simps, subst emaLoop.simps) (simp add: Let_def)
  next
    case False
    then show ?thesis by (subst emaLoopWith.simps, subst emaLoop.simps) simp
  qed
qed

lemma emaSeriesWith_exact: "emaSeriesWith (\<lambda>x. x) vs period = emaSeries vs period"
  by (simp add: emaSeriesWith_def emaSeries_def Let_def foldl_plus emaLoopWith_exact)

text \<open>
  Claim C6 says that on a constant series of value \<open>v\<close> the EMA equals \<open>v\<close> at every
  defined index. In the arithmetic of the program it does not: on four values
  \<^verbatim>\<open>0.1\<close> with period 3 the value at the seed index 2 is \<^verbatim>\<open>0.10000000000000002\<close>, one
  unit in the last place above \<^verbatim>\<open>0.1\<close>.
\<close>

theorem ema_constant_not_exact_in_doubles:
  "tenth = 7205759403792794 / 72057594037927936 \<and>
   emaSeriesWith fl [tenth, tenth, tenth, tenth] 3 ! 2 =
     Some (7205759403792795 / 72057594037927936) \<and>
   emaSeriesWith fl [tenth, tenth, tenth, tenth] 3 ! 2 \<noteq> Some tenth"
proof -
  have "emaSeriesWith fl [tenth, tenth, tenth, tenth] 3 ! (3 - 1) =
          Some (fl (foldl (\<lambda>a b. fl (a + b)) 0 (take 3 [tenth, tenth, tenth, tenth]) / real 3))"
    by (rule emaSeriesWith_seed) simp_all
  then show ?thesis
    by (simp add: tenth_eq fl_tenth_sums)
qed

text \<open>
  Claim C6 as amended. For a series at least \<open>period\<close> long and a positive period,
  with every operation rounded (by \<open>fl\<close> as the program does, or by any other
  rounding): the series holds at index \<open>period - 1\<close> the sum of the first \<open>period\<close>
  values, added from the left, divided by \<open>period\<close>, and at every later index \<open>i\<close> the
  value \<open>values[i] * k + previous * (1 - k)\<close> with \<open>k = 2 / (period + 1)\<close>, where
  \<open>previous\<close> is the value at \<open>i - 1\<close>. On a series whose values all equal \<open>v\<close> the
  EMA is \<open>v\<close> at every defined index whenever the seed average and one step of the
  recurrence at \<open>v\<close> give \<open>v\<close> again. In exact arithmetic, where the series is
  \<open>emaSeries\<close>, they always do, and the EMA of a constant series is \<open>v\<close>.
\<close>

theorem emaSeriesWith_seed_recurrence:
  assumes "0 < period" "period \<le> length vs"
  shows
    "emaSeriesWith rnd vs period ! (period - 1) =
       Some (rnd (foldl (\<lambda>a b. rnd (a + b)) 0 (take period vs) / real period)) \<and>
     (\<forall>i. period \<le> i \<and> i < length vs \<longrightarrow>
        (\<exists>p. emaSeriesWith rnd vs period ! (i - 1) = Some p \<and>
             emaSeriesWith rnd vs period ! i =
               Some (rnd (rnd (vs ! i * rnd (2 / (real period + 1))) +
                          rnd (p * rnd (1 - rnd (2 / (real period + 1)))))))) \<and>
     ((\<forall>x\<in>set vs. x = v) \<and>
      rnd (foldl (\<lambda>a b. rnd (a + b)) 0 (take period vs) / real period) = v \<and>
      rnd (rnd (v * rnd (2 / (real period + 1))) +
           rnd (v * rnd (1 - rnd (2 / (real period + 1))))) = v \<longrightarrow>
        (\<forall>i. period - 1 \<le> i \<and> i < length vs \<longrightarrow> emaSeriesWith rnd vs period ! i = Some v)) \<and>
     emaSeriesWith (\<lambda>x. x) vs period = emaSeries vs period \<and>
     ((\<forall>x\<in>set vs. x = v) \<longrightarrow>
        (\<forall>i. period - 1 \<le> i \<and> i < length vs \<longrightarrow> emaSeries vs period ! i = Some v))"
  using assms emaSeriesWith_seed [of period vs rnd] emaSeriesWith_next [of period _ vs rnd]
    emaSeriesWith_constant [of period vs v rnd] emaSeriesWith_exact [of vs period]
    emaSeries_constant [of period vs v]
  by blast

theorem emaSeriesWith_seed_recurrence_witness:
  "(0::nat) < 3 \<and> (3::nat) \<le> length [1, 1, 1, 1, 1::real] \<and>
   set [1, 1, 1, 1, 1::real] = {1} \<and>
   fl (foldl (\<lambda>a b. fl (a + b)) 0 (take 3 [1, 1, 1, 1, 1]) / real 3) = 1 \<and>
   fl (fl (1 * fl (2 / (real 3 + 1))) + fl (1 * fl (1 - fl (2 / (real 3 + 1))))) = 1 \<and>
   emaSeriesWith fl [1, 1, 1, 1, 1] 3 ! 2 = Some 1 \<and>
   emaSeriesWith fl [1, 1, 1, 1, 1] 3 ! 3 = Some 1 \<and>
   emaSeriesWith fl [1, 1, 1, 1, 1] 3 ! 4 = Some 1 \<and>
   emaSeries [7, 7, 7, 7] 3 ! 3 = Some 7"
proof -
  have a: "(0::nat) < 3" "(3::nat) \<le> length [1, 1, 1, 1, 1::real]" by simp_all
  have c: "\<forall>x\<in>set [1, 1, 1, 1, 1::real]. x = 1" by simp
  have c': "set [1, 1, 1, 1, 1::real] = {1}" by simp
  have s: "fl (foldl (\<lambda>a b. fl (a + b)) 0 (take 3 [1, 1, 1, 1, 1]) / real 3) = 1"
    by (simp add: fl_small_values)
  have t: "fl (fl (1 * fl (2 / (real 3 + 1))) + fl (1 * fl (1 - fl (2 / (real 3 + 1))))) = 1"
    by (simp add: fl_small_values)
  from emaSeriesWith_seed_recurrence [OF a, of fl 1] c s t
  have all: "\<forall>i. 3 - 1 \<le> i \<and> i < length [1, 1, 1, 1, 1::real] \<longrightarrow>
      emaSeriesWith fl [1, 1, 1, 1, 1] 3 ! i = Some 1"
    by blast
  from all have e2: "emaSeriesWith fl [1, 1, 1, 1, 1] 3 ! 2 = Some 1" by simp
  from all have e3: "emaSeriesWith fl [1, 1, 1, 1, 1] 3 ! 3 = Some 1" by simp
  from all have e4: "emaSeriesWith fl [1, 1, 1, 1, 1] 3 ! 4 = Some 1" by simp
  have b: "(0::nat) < 3" "(3::nat) \<le> length [7, 7, 7, 7::real]" by simp_all
  from emaSeriesWith_seed_recurrence [OF b, of "\<lambda>x. x" 7]
  have "\<forall>i. 3 - 1 \<le> i \<and> i < length [7, 7, 7, 7::real] \<longrightarrow> emaSeries [7, 7, 7, 7] 3 ! i = Some 7"
    by simp
  then have e7: "emaSeries [7, 7, 7, 7] 3 ! 3 = Some 7" by simp
  from a c' s t e2 e3 e4 e7 show ?thesis by blast
qed

section \<open>Where the MACD frame is defined\<close>

text \<open>
  The three arrays are as long as the price history. With at least \<open>MACD_SLOW\<close> closes,
  each of them is \<open>None\<close> exactly below index \<open>MACD_SLOW - 1\<close>: the signal line is
  read from an EMA series that has run since index \<open>MACD_SIGNAL - 1\<close> over the
  zero-filled MACD values, and only the indices without a MACD value are blanked.
\<close>

lemma macdSeries_fields:
  "macd (macdSeries c) = macdLine (emaSeries c MACD_FAST) (emaSeries c MACD_SLOW) (length c)"
  "signal (macdSeries c) = signalLine (macd (macdSeries c))"
  "hist (macdSeries c) = histLine (macd (macdSeries c)) (signal (macdSeries c))"
  by (simp_all add: macdSeries_def Let_def)

lemma length_macdLine: "length (macdLine fast slow n) = n"
  by (simp add: macdLine_def)

lemma length_signalLine: "length (signalLine m) = length m"
  by (simp add: signalLine_def Let_def macdVals_def length_emaSeries)

lemma length_histLine: "length (histLine m sg) = length m"
  by (simp add: histLine_def)

lemma length_macdSeries [simp]:
  "length (macd (macdSeries c)) = length c"
  "length (signal (macdSeries c)) = length c"
  "length (hist (macdSeries c)) = length c"
  by (simp_all add: macdSeries_fields length_macdLine length_signalLine length_histLine)

lemma macd_nth:
  assumes "i < length c"
  shows "macd (macdSeries c) ! i =
     (case emaSeries c MACD_FAST ! i of
        None \<Rightarrow> None
      | Some f \<Rightarrow> (case emaSeries c MACD_SLOW ! i of None \<Rightarrow> None | Some s \<Rightarrow> Some (f - s)))"
  unfolding macdSeries_fields(1) macdLine_def using assms by (simp cong: option.case_cong)

lemma signal_nth:
  assumes "i < length c"
  shows "signal (macdSeries c) ! i =
     (if macd (macdSeries c) ! i = None then None
      else emaSeries (macdVals (macd (macdSeries c))) MACD_SIGNAL ! i)"
proof -
  have "length (emaSeries (macdVals (macd (macdSeries c))) MACD_SIGNAL) = length c"
    by (simp add: length_emaSeries macdVals_def)
  with assms show ?thesis
    unfolding macdSeries_fields(2) signalLine_def Let_def by simp
qed

lemma hist_nth:
  assumes "i < length c"
  shows "hist (macdSeries c) ! i =
     (case macd (macdSeries c) ! i of
        None \<Rightarrow> None
      | Some v \<Rightarrow> (case signal (macdSeries c) ! i of None \<Rightarrow> None | Some s \<Rightarrow> Some (v - s)))"
  unfolding macdSeries_fields(3) histLine_def using assms by (simp cong: option.case_cong)

lemma macd_None_iff:
  assumes "MACD_SLOW \<le> length c" "i < length c"
  shows "macd (macdSeries c) ! i = None \<longleftrightarrow> i < MACD_SLOW - 1"
proof (cases "i < MACD_SLOW - 1")
  case True
  with assms have "emaSeries c MACD_SLOW ! i = None" by (simp add: emaSeries_before)
  with assms True show ?thesis by (simp add: macd_nth split: option.splits)
next
  case False
  with assms have "\<exists>x. emaSeries c MACD_SLOW ! i = Some x"
    by (intro emaSeries_defined) (simp_all add: MACD_SLOW_def)
  moreover from assms False have "\<exists>x. emaSeries c MACD_FAST ! i = Some x"
    by (intro emaSeries_defined) (simp_all add: MACD_SLOW_def MACD_FAST_def)
  ultimately show ?thesis using assms False by (auto simp: macd_nth)
qed

lemma signal_None_iff:
  assumes "MACD_SLOW \<le> length c" "i < length c"
  shows "signal (macdSeries c) ! i = None \<longleftrightarrow> i < MACD_SLOW - 1"
proof (cases "i < MACD_SLOW - 1")
  case True
  with assms show ?thesis by (simp add: signal_nth macd_None_iff)
next
  case False
  have "length (macdVals (macd (macdSeries c))) = length c"
    by (simp add: macdVals_def)
  with assms False have "\<exists>x. emaSeries (macdVals (macd (macdSeries c))) MACD_SIGNAL ! i = Some x"
    by (intro emaSeries_defined) (simp_all add: MACD_SLOW_def MACD_SIGNAL_def)
  with assms False show ?thesis by (auto simp: signal_nth macd_None_iff)
qed

lemma hist_None_iff:
  assumes "MACD_SLOW \<le> length c" "i < length c"
  shows "hist (macdSeries c) ! i = None \<longleftrightarrow> i < MACD_SLOW - 1"
  using assms macd_None_iff [OF assms] signal_None_iff [OF assms]
  by (auto simp: hist_nth split: option.splits)

lemma latestIdx_here:
  "0 \<le> i \<Longrightarrow> m ! nat i \<noteq> None \<Longrightarrow> sg ! nat i \<noteq> None \<Longrightarrow> latestIdx m sg i = i"
  by (subst latestIdx.simps) auto

lemma latestIdx_sufficient:
  assumes "MACD_SLOW + MACD_SIGNAL + 2 \<le> length c"
  shows "latestIdx (macd (macdSeries c)) (signal (macdSeries c)) (int (length (macd (macdSeries c))) - 1)
           = int (length c) - 1"
proof -
  from assms have n: "37 \<le> length c" by (simp add: MACD_SLOW_def MACD_SIGNAL_def)
  then have i: "nat (int (length c) - 1) = length c - 1" by simp
  from n have "macd (macdSeries c) ! (length c - 1) \<noteq> None"
    by (subst macd_None_iff) (simp_all add: MACD_SLOW_def)
  moreover from n have "signal (macdSeries c) ! (length c - 1) \<noteq> None"
    by (subst signal_None_iff) (simp_all add: MACD_SLOW_def)
  ultimately have "latestIdx (macd (macdSeries c)) (signal (macdSeries c)) (int (length c) - 1)
      = int (length c) - 1"
    using n i by (intro latestIdx_here) auto
  then show ?thesis by simp
qed

lemma analyzeTicker_insufficient:
  "length c < MACD_SLOW + MACD_SIGNAL + 2 \<Longrightarrow> analyzeTicker (Some c) = None"
  by (simp add: analyzeTicker_def)

lemma analyzeTicker_sufficient:
  assumes "MACD_SLOW + MACD_SIGNAL + 2 \<le> length c"
  shows "analyzeTicker (Some c) =
     Some \<lparr>cross = detectCross (macd (macdSeries c) ! (length c - 2)) (signal (macdSeries c) ! (length c - 2))
                              (macd (macdSeries c) ! (length c - 1)) (signal (macdSeries c) ! (length c - 1)),
           macdNow = macd (macdSeries c) ! (length c - 1),
           signalNow = signal (macdSeries c) ! (length c - 1),
           histNow = hist (macdSeries c) ! (length c - 1),
           histPrev = hist (macdSeries c) ! (length c - 2),
           price = c ! (length c - 1),
           prevPrice = c ! (length c - 2),
           idx = length c - 1\<rparr>"
proof -
  from assms have n: "37 \<le> length c" by (simp add: MACD_SLOW_def MACD_SIGNAL_def)
  then have i: "nat (int (length c) - 1) = length c - 1" "length c - 1 - 1 = length c - 2"
    "\<not> int (length c) - 1 < 1"
    by simp_all
  show ?thesis
    using assms i by (simp add: analyzeTicker_def Let_def latestIdx_sufficient del: length_macdSeries)
qed

section \<open>The series as lists\<close>

text \<open>
  The loops over indices, restated as maps over the lists. These equations are what
  the evaluations on concrete price histories below run on.
\<close>

lemma emaLoop_eq:
  "i \<le> length vs \<Longrightarrow> length out = length vs \<Longrightarrow>
   emaLoop vs k i prev out = take i out @ emaTail k prev (drop i vs)"
proof (induction vs k i prev out rule: emaLoop.induct)
  case (1 vs k i prev out)
  show ?case
  proof (cases "i < length vs")
    case True
    let ?p = "vs ! i * k + prev * (1 - k)"
    have "emaLoop vs k i prev out = emaLoop vs k (Suc i) ?p (out[i := Some ?p])"
      using True by (subst emaLoop.simps) (simp add: Let_def)
    also have "\<dots> = take (Suc i) (out[i := Some ?p]) @ emaTail k ?p (drop (Suc i) vs)"
      using True "1.prems" by (intro "1.IH" [OF True refl]) simp_all
    also have "take (Suc i) (out[i := Some ?p]) = take i out @ [Some ?p]"
      using True "1.prems" by (simp add: take_Suc_conv_app_nth)
    also have "(take i out @ [Some ?p]) @ emaTail k ?p (drop (Suc i) vs)
        = take i out @ emaTail k prev (drop i vs)"
      using True by (simp add: Cons_nth_drop_Suc [symmetric])
    finally show ?thesis .
  next
    case False
    with "1.prems" show ?thesis by (subst emaLoop.simps) simp
  qed
qed

lemma emaSeries_eq:
  assumes "0 < period" "period \<le> length vs"
  shows "emaSeries vs period =
           replicate (period - 1) None @
           Some (sum_list (take period vs) / real period) #
           emaTail (2 / (real period + 1)) (sum_list (take period vs) / real period) (drop period vs)"
proof -
  let ?s = "sum_list (take period vs) / real period"
  have "take period ((replicate (length vs) None)[period - 1 := Some ?s])
        = replicate (period - 1) None @ [Some ?s]"
  proof -
    from assms obtain q where q: "period = Suc q" by (cases period) auto
    with assms show ?thesis
      by (simp add: take_Suc_conv_app_nth min_def)
  qed
  with assms show ?thesis
    by (simp add: emaSeries_def Let_def emaLoop_eq)
qed

lemma macdLine_eq:
  assumes "length fast = n" "length slow = n"
  shows "macdLine fast slow n =
     map2 (\<lambda>f s. case f of None \<Rightarrow> None
                 | Some x \<Rightarrow> (case s of None \<Rightarrow> None | Some y \<Rightarrow> Some (x - y))) fast slow"
  using assms by (intro nth_equalityI) (simp_all add: macdLine_def cong: option.case_cong)

lemma signalLine_eq:
  "signalLine m =
     map2 (\<lambda>v e. if v = None then None else e) m (emaSeries (macdVals m) MACD_SIGNAL)"
  by (intro nth_equalityI)
     (simp_all add: signalLine_def Let_def length_emaSeries macdVals_def)

lemma histLine_eq:
  assumes "length sg = length m"
  shows "histLine m sg =
     map2 (\<lambda>v s. case v of None \<Rightarrow> None
                 | Some x \<Rightarrow> (case s of None \<Rightarrow> None | Some y \<Rightarrow> Some (x - y))) m sg"
  using assms by (intro nth_equalityI) (simp_all add: histLine_def cong: option.case_cong)

section \<open>The two example histories, evaluated\<close>

text \<open>
  On the falling history the MACD line sits at \<open>-7\<close> from index 25 to 35; the jump of
  the last bar lifts it above the signal line. The rising history is its mirror image,
  twice as steep.
\<close>

lemma closesUp_eq:
  "closesUp =
  [100, 99, 98, 97, 96, 95, 94, 93, 92, 91, 90, 89, 88, 87, 86, 85, 84, 83, 82, 81, 80,
   79, 78, 77, 76, 75, 74, 73, 72, 71, 70, 69, 68, 67, 66, 65, 80]"
  by code_simp

lemma fastUp:
  "emaSeries closesUp MACD_FAST =
  [None, None, None, None, None, None, None, None, None, None, None, Some (189 / 2),
   Some (187 / 2), Some (185 / 2), Some (183 / 2), Some (181 / 2), Some (179 / 2),
   Some (177 / 2), Some (175 / 2), Some (173 / 2), Some (171 / 2), Some (169 / 2),
   Some (167 / 2), Some (165 / 2), Some (163 / 2), Some (161 / 2), Some (159 / 2),
   Some (157 / 2), Some (155 / 2), Some (153 / 2), Some (151 / 2), Some (149 / 2),
   Some (147 / 2), Some (145 / 2), Some (143 / 2), Some (141 / 2), Some (1871 / 26)]"
  by (simp add: emaSeries_eq MACD_FAST_def closesUp_eq eval_nat_numeral)

lemma slowUp:
  "emaSeries closesUp MACD_SLOW =
  [None, None, None, None, None, None, None, None, None, None, None, None, None, None,
   None, None, None, None, None, None, None, None, None, None, None, Some (175 / 2),
   Some (173 / 2), Some (171 / 2), Some (169 / 2), Some (167 / 2), Some (165 / 2),
   Some (163 / 2), Some (161 / 2), Some (159 / 2), Some (157 / 2), Some (155 / 2),
   Some (4195 / 54)]"
  by (simp add: emaSeries_eq MACD_SLOW_def closesUp_eq eval_nat_numeral)

lemma macdUp:
  "macd (macdSeries closesUp) =
  [None, None, None, None, None, None, None, None, None, None, None, None, None, None,
   None, None, None, None, None, None, None, None, None, None, None, Some (- 7),
   Some (- 7), Some (- 7), Some (- 7), Some (- 7), Some (- 7), Some (- 7), Some (- 7),
   Some (- 7), Some (- 7), Some (- 7), Some (- (2009 / 351))]"
proof -
  have "length closesUp = 37" by (simp add: closesUp_eq)
  then have "macd (macdSeries closesUp) =
     map2 (\<lambda>f s. case f of None \<Rightarrow> None
                 | Some x \<Rightarrow> (case s of None \<Rightarrow> None | Some y \<Rightarrow> Some (x - y)))
       (emaSeries closesUp MACD_FAST) (emaSeries closesUp MACD_SLOW)"
    unfolding macdSeries_fields(1) by (intro macdLine_eq) (simp_all add: length_emaSeries)
  then show ?thesis by (simp add: fastUp slowUp)
qed

lemma signalUp:
  "signal (macdSeries closesUp) =
  [None, None, None, None, None, None, None, None, None, None, None, None, None, None,
   None, None, None, None, None, None, None, None, None, None, None, Some (- (7 / 5)),
   Some (- (63 / 25)), Some (- (427 / 125)), Some (- (2583 / 625)),
   Some (- (14707 / 3125)), Some (- (80703 / 15625)), Some (- (432187 / 78125)),
   Some (- (2275623 / 390625)), Some (- (11836867 / 1953125)),
   Some (- (61019343 / 9765625)), Some (- (312436747 / 48828125)),
   Some (- (536756895913 / 85693359375))]"
  unfolding macdSeries_fields(2) signalLine_eq macdUp
  by (simp add: macdVals_def emaSeries_eq MACD_SIGNAL_def eval_nat_numeral)

lemma histUp:
  "hist (macdSeries closesUp) =
  [None, None, None, None, None, None, None, None, None, None, None, None, None, None,
   None, None, None, None, None, None, None, None, None, None, None, Some (- (28 / 5)),
   Some (- (112 / 25)), Some (- (448 / 125)), Some (- (1792 / 625)),
   Some (- (7168 / 3125)), Some (- (28672 / 15625)), Some (- (114688 / 78125)),
   Some (- (458752 / 390625)), Some (- (1835008 / 1953125)),
   Some (- (7340032 / 9765625)), Some (- (29360128 / 48828125)),
   Some (46278380288 / 85693359375)]"
proof -
  have "hist (macdSeries closesUp) =
     map2 (\<lambda>v s. case v of None \<Rightarrow> None
                 | Some x \<Rightarrow> (case s of None \<Rightarrow> None | Some y \<Rightarrow> Some (x - y)))
       (macd (macdSeries closesUp)) (signal (macdSeries closesUp))"
    unfolding macdSeries_fields(3) by (intro histLine_eq) simp
  then show ?thesis by (simp add: macdUp signalUp)
qed

lemma analyzeUp:
  "analyzeTicker (Some closesUp) =
     Some \<lparr>cross = Some BullishCross, macdNow = Some (- (2009 / 351)),
           signalNow = Some (- (536756895913 / 85693359375)),
           histNow = Some (46278380288 / 85693359375),
           histPrev = Some (- (29360128 / 48828125)),
           price = 80, prevPrice = 65, idx = 36\<rparr>"
proof -
  have n: "length closesUp = 37" by (simp add: closesUp_eq)
  then have "MACD_SLOW + MACD_SIGNAL + 2 \<le> length closesUp"
    by (simp add: MACD_SLOW_def MACD_SIGNAL_def)
  from analyzeTicker_sufficient [OF this] show ?thesis
    unfolding n macdUp signalUp histUp by (simp add: detectCross_def closesUp_eq)
qed

lemma closesDown_eq:
  "closesDown =
  [100, 102, 104, 106, 108, 110, 112, 114, 116, 118, 120, 122, 124, 126, 128, 130, 132,
   134, 136, 138, 140, 142, 144, 146, 148, 150, 152, 154, 156, 158, 160, 162, 164, 166,
   168, 170, 140]"
  by code_simp

lemma fastDown:
  "emaSeries closesDown MACD_FAST =
  [None, None, None, None, None, None, None, None, None, None, None, Some 111,
   Some 113, Some 115, Some 117, Some 119, Some 121, Some 123, Some 125, Some 127,
   Some 129, Some 131, Some 133, Some 135, Some 137, Some 139, Some 141, Some 143,
   Some 145, Some 147, Some 149, Some 151, Some 153, Some 155, Some 157, Some 159,
   Some (2029 / 13)]"
  by (simp add: emaSeries_eq MACD_FAST_def closesDown_eq eval_nat_numeral)

lemma slowDown:
  "emaSeries closesDown MACD_SLOW =
  [None, None, None, None, None, None, None, None, None, None, None, None, None, None,
   None, None, None, None, None, None, None, None, None, None, None, Some 125,
   Some 127, Some 129, Some 131, Some 133, Some 135, Some 137, Some 139, Some 141,
   Some 143, Some 145, Some (3905 / 27)]"
  by (simp add: emaSeries_eq MACD_SLOW_def closesDown_eq eval_nat_numeral)

lemma macdDown:
  "macd (macdSeries closesDown) =
  [None, None, None, None, None, None, None, None, None, None, None, None, None, None,
   None, None, None, None, None, None, None, None, None, None, None, Some 14, Some 14,
   Some 14, Some 14, Some 14, Some 14, Some 14, Some 14, Some 14, Some 14, Some 14,
   Some (4018 / 351)]"
proof -
  have "length closesDown = 37" by (simp add: closesDown_eq)
  then have "macd (macdSeries closesDown) =
     map2 (\<lambda>f s. case f of None \<Rightarrow> None
                 | Some x \<Rightarrow> (case s of None \<Rightarrow> None | Some y \<Rightarrow> Some (x - y)))
       (emaSeries closesDown MACD_FAST) (emaSeries closesDown MACD_SLOW)"
    unfolding macdSeries_fields(1) by (intro macdLine_eq) (simp_all add: length_emaSeries)
  then show ?thesis by (simp add: fastDown slowDown)
qed

lemma signalDown:
  "signal (macdSeries closesDown) =
  [None, None, None, None, None, None, None, None, None, None, None, None, None, None,
   None, None, None, None, None, None, None, None, None, None, None, Some (14 / 5),
   Some (126 / 25), Some (854 / 125), Some (5166 / 625), Some (29414 / 3125),
   Some (161406 / 15625), Some (864374 / 78125), Some (4551246 / 390625),
   Some (23673734 / 1953125), Some (122038686 / 9765625), Some (624873494 / 48828125),
   Some (1073513791826 / 85693359375)]"
  unfolding macdSeries_fields(2) signalLine_eq macdDown
  by (simp add: macdVals_def emaSeries_eq MACD_SIGNAL_def eval_nat_numeral)

lemma histDown:
  "hist (macdSeries closesDown) =
  [None, None, None, None, None, None, None, None, None, None, None, None, None, None,
   None, None, None, None, None, None, None, None, None, None, None, Some (56 / 5),
   Some (224 / 25), Some (896 / 125), Some (3584 / 625), Some (14336 / 3125),
   Some (57344 / 15625), Some (229376 / 78125), Some (917504 / 390625),
   Some (3670016 / 1953125), Some (14680064 / 9765625), Some (58720256 / 48828125),
   Some (- (92556760576 / 85693359375))]"
proof -
  have "hist (macdSeries closesDown) =
     map2 (\<lambda>v s. case v of None \<Rightarrow> None
                 | Some x \<Rightarrow> (case s of None \<Rightarrow> None | Some y \<Rightarrow> Some (x - y)))
       (macd (macdSeries closesDown)) (signal (macdSeries closesDown))"
    unfolding macdSeries_fields(3) by (intro histLine_eq) simp
  then show ?thesis by (simp add: macdDown signalDown)
qed

lemma analyzeDown:
  "analyzeTicker (Some closesDown) =
     Some \<lparr>cross = Some BearishCross, macdNow = Some (4018 / 351),
           signalNow = Some (1073513791826 / 85693359375),
           histNow = Some (- (92556760576 / 85693359375)),
           histPrev = Some (58720256 / 48828125),
           price = 140, prevPrice = 170, idx = 36\<rparr>"
proof -
  have n: "length closesDown = 37" by (simp add: closesDown_eq)
  then have "MACD_SLOW + MACD_SIGNAL + 2 \<le> length closesDown"
    by (simp add: MACD_SLOW_def MACD_SIGNAL_def)
  from analyzeTicker_sufficient [OF this] show ?thesis
    unfolding n macdDown signalDown histDown by (simp add: detectCross_def closesDown_eq)
qed

section \<open>Cross detection\<close>

lemma detectCross_Some:
  "detectCross (Some m0) (Some s0) (Some m1) (Some s1) =
     (if m0 > s0 \<and> m1 < s1 then Some BearishCross
      else if m0 < s0 \<and> m1 > s1 then Some BullishCross else None)"
  by (simp add: detectCross_def)

lemma defined_last_two:
  assumes "MACD_SLOW + MACD_SIGNAL + 2 \<le> length c"
  shows "\<exists>m0 s0 m1 s1 h0 h1.
           macd (macdSeries c) ! (length c - 2) = Some m0 \<and>
           signal (macdSeries c) ! (length c - 2) = Some s0 \<and>
           macd (macdSeries c) ! (length c - 1) = Some m1 \<and>
           signal (macdSeries c) ! (length c - 1) = Some s1 \<and>
           hist (macdSeries c) ! (length c - 2) = Some h0 \<and>
           hist (macdSeries c) ! (length c - 1) = Some h1"
proof -
  from assms have n: "37 \<le> length c" by (simp add: MACD_SLOW_def MACD_SIGNAL_def)
  have "macd (macdSeries c) ! i \<noteq> None \<and> signal (macdSeries c) ! i \<noteq> None \<and>
        hist (macdSeries c) ! i \<noteq> None"
    if "i = length c - 2 \<or> i = length c - 1" for i
  proof -
    from that n have i: "MACD_SLOW \<le> length c" "i < length c" "\<not> i < MACD_SLOW - 1"
      by (auto simp: MACD_SLOW_def)
    from macd_None_iff [OF i(1,2)] signal_None_iff [OF i(1,2)] hist_None_iff [OF i(1,2)] i(3)
    show ?thesis by simp
  qed
  then show ?thesis by (metis not_None_eq)
qed

text \<open>
  Claim C7. On a history of at least \<open>MACD_SLOW + MACD_SIGNAL + 2\<close> closes the analyzer
  returns a result whose \<open>idx\<close> is the last index of the history, where MACD and signal
  are both defined, as they are at \<open>idx - 1\<close>. It reports a bullish cross exactly when
  \<open>macd[idx-1] < signal[idx-1]\<close> and \<open>macd[idx] > signal[idx]\<close>, a bearish cross exactly
  when both inequalities are reversed, and no cross otherwise. When fewer than two
  indices have both MACD and signal defined, the analyzer returns no result.
\<close>

theorem analyzeTicker_cross_detection:
  "(MACD_SLOW + MACD_SIGNAL + 2 \<le> length c \<longrightarrow>
      (\<exists>res m0 s0 m1 s1.
         analyzeTicker (Some c) = Some res \<and>
         idx res = length c - 1 \<and>
         macd (macdSeries c) ! (idx res - 1) = Some m0 \<and>
         signal (macdSeries c) ! (idx res - 1) = Some s0 \<and>
         macd (macdSeries c) ! idx res = Some m1 \<and>
         signal (macdSeries c) ! idx res = Some s1 \<and>
         (cross res = Some BullishCross \<longleftrightarrow> m0 < s0 \<and> m1 > s1) \<and>
         (cross res = Some BearishCross \<longleftrightarrow> m0 > s0 \<and> m1 < s1) \<and>
         (cross res = None \<longleftrightarrow> \<not> (m0 < s0 \<and> m1 > s1) \<and> \<not> (m0 > s0 \<and> m1 < s1)))) \<and>
   (card {i. i < length c \<and> macd (macdSeries c) ! i \<noteq> None \<and> signal (macdSeries c) ! i \<noteq> None} < 2
      \<longrightarrow> analyzeTicker (Some c) = None)"
proof (intro conjI impI)
  assume suff: "MACD_SLOW + MACD_SIGNAL + 2 \<le> length c"
  then have n: "37 \<le> length c" by (simp add: MACD_SLOW_def MACD_SIGNAL_def)
  from defined_last_two [OF suff] obtain m0 s0 m1 s1 where d:
    "macd (macdSeries c) ! (length c - 2) = Some m0"
    "signal (macdSeries c) ! (length c - 2) = Some s0"
    "macd (macdSeries c) ! (length c - 1) = Some m1"
    "signal (macdSeries c) ! (length c - 1) = Some s1"
    by blast
  from n have e: "length c - 1 - 1 = length c - 2" by simp
  let ?res = "the (analyzeTicker (Some c))"
  have r: "analyzeTicker (Some c) = Some ?res" "idx ?res = length c - 1"
    "cross ?res = detectCross (Some m0) (Some s0) (Some m1) (Some s1)"
    by (simp_all add: analyzeTicker_sufficient [OF suff] d del: One_nat_def)
  show "\<exists>res m0 s0 m1 s1.
         analyzeTicker (Some c) = Some res \<and>
         idx res = length c - 1 \<and>
         macd (macdSeries c) ! (idx res - 1) = Some m0 \<and>
         signal (macdSeries c) ! (idx res - 1) = Some s0 \<and>
         macd (macdSeries c) ! idx res = Some m1 \<and>
         signal (macdSeries c) ! idx res = Some s1 \<and>
         (cross res = Some BullishCross \<longleftrightarrow> m0 < s0 \<and> m1 > s1) \<and>
         (cross res = Some BearishCross \<longleftrightarrow> m0 > s0 \<and> m1 < s1) \<and>
         (cross res = None \<longleftrightarrow> \<not> (m0 < s0 \<and> m1 > s1) \<and> \<not> (m0 > s0 \<and> m1 < s1))"
    apply (rule exI [of _ ?res], rule exI [of _ m0], rule exI [of _ s0],
           rule exI [of _ m1], rule exI [of _ s1])
    using r d e by (auto simp: detectCross_Some)
next
  assume few: "card {i. i < length c \<and> macd (macdSeries c) ! i \<noteq> None \<and>
                       signal (macdSeries c) ! i \<noteq> None} < 2"
  show "analyzeTicker (Some c) = None"
  proof (cases "length c < MACD_SLOW + MACD_SIGNAL + 2")
    case True
    then show ?thesis by (rule analyzeTicker_insufficient)
  next
    case False
    then have suff: "MACD_SLOW + MACD_SIGNAL + 2 \<le> length c" by simp
    then have n: "37 \<le> length c" by (simp add: MACD_SLOW_def MACD_SIGNAL_def)
    let ?D = "{i. i < length c \<and> macd (macdSeries c) ! i \<noteq> None \<and>
                  signal (macdSeries c) ! i \<noteq> None}"
    from defined_last_two [OF suff] n have "{length c - 2, length c - 1} \<subseteq> ?D"
      by auto
    moreover have "finite ?D" by simp
    ultimately have "card {length c - 2, length c - 1} \<le> card ?D"
      by (rule card_mono [rotated])
    moreover from n have "card {length c - 2, length c - 1} = 2" by simp
    ultimately show ?thesis using few by simp
  qed
qed

theorem analyzeTicker_cross_detection_witness:
  "MACD_SLOW + MACD_SIGNAL + 2 \<le> length closesUp \<and>
   (\<exists>res. analyzeTicker (Some closesUp) = Some res \<and> idx res = 36 \<and>
          cross res = Some BullishCross) \<and>
   card {i. i < length ([]::real list) \<and> macd (macdSeries []) ! i \<noteq> None \<and>
            signal (macdSeries []) ! i \<noteq> None} < 2 \<and>
   analyzeTicker (Some []) = None"
proof -
  have h: "MACD_SLOW + MACD_SIGNAL + 2 \<le> length closesUp"
    by (simp add: closesUp_eq MACD_SLOW_def MACD_SIGNAL_def)
  have len: "length closesUp - 1 = 36" by (simp add: closesUp_eq)
  from analyzeTicker_cross_detection [of closesUp] h
  obtain res m0 s0 m1 s1 where r:
    "analyzeTicker (Some closesUp) = Some res" "idx res = length closesUp - 1"
    "macd (macdSeries closesUp) ! (idx res - 1) = Some m0"
    "signal (macdSeries closesUp) ! (idx res - 1) = Some s0"
    "macd (macdSeries closesUp) ! idx res = Some m1"
    "signal (macdSeries closesUp) ! idx res = Some s1"
    "cross res = Some BullishCross \<longleftrightarrow> m0 < s0 \<and> m1 > s1"
    by blast
  from r(2-6) len have "m0 = - 7" "s0 = - (312436747 / 48828125)"
    "m1 = - (2009 / 351)" "s1 = - (536756895913 / 85693359375)"
    by (simp_all add: macdUp signalUp)
  with r(7) have "cross res = Some BullishCross" by simp
  with r(1,2) len have a: "\<exists>res. analyzeTicker (Some closesUp) = Some res \<and> idx res = 36 \<and>
          cross res = Some BullishCross" by simp
  have k: "card {i. i < length ([]::real list) \<and> macd (macdSeries []) ! i \<noteq> None \<and>
            signal (macdSeries []) ! i \<noteq> None} < 2" by simp
  with analyzeTicker_cross_detection [of "[]"] have "analyzeTicker (Some []) = None" by blast
  with h a k show ?thesis by blast
qed

section \<open>The confirmation policy of the scan\<close>

lemma scanTicker_emits:
  assumes "intentEmitted (fst (scanTicker symb env st))"
  shows "\<exists>res. analyzeTicker (fetched env) = Some res \<and> cross res = Some BullishCross \<and>
           js_gt (histNow res) (histPrev res) \<and> analysis.prevPrice res < analysis.price res"
  using assms
  by (auto simp: scanTicker_def intentEmitted_def split: option.splits prod.splits if_splits)

lemma analyzeTicker_Some:
  assumes "analyzeTicker data = Some res"
  shows "\<exists>c. data = Some c \<and> MACD_SLOW + MACD_SIGNAL + 2 \<le> length c"
  using assms by (auto simp: analyzeTicker_def split: option.splits if_splits)

lemma emits_confirmed:
  assumes "intentEmitted (fst (scanTicker symb env st))"
  shows "\<exists>c. fetched env = Some c \<and> confirmedBullish c"
proof -
  from scanTicker_emits [OF assms] obtain res where res:
    "analyzeTicker (fetched env) = Some res" "cross res = Some BullishCross"
    "js_gt (histNow res) (histPrev res)" "analysis.prevPrice res < analysis.price res"
    by blast
  from analyzeTicker_Some [OF res(1)] obtain c where c:
    "fetched env = Some c" "MACD_SLOW + MACD_SIGNAL + 2 \<le> length c"
    by blast
  from c(2) have n: "37 \<le> length c" by (simp add: MACD_SLOW_def MACD_SIGNAL_def)
  then have e: "length c - 1 - 1 = length c - 2" by simp
  from defined_last_two [OF c(2)] obtain m0 s0 m1 s1 h0 h1 where d:
    "macd (macdSeries c) ! (length c - 2) = Some m0"
    "signal (macdSeries c) ! (length c - 2) = Some s0"
    "macd (macdSeries c) ! (length c - 1) = Some m1"
    "signal (macdSeries c) ! (length c - 1) = Some s1"
    "hist (macdSeries c) ! (length c - 2) = Some h0"
    "hist (macdSeries c) ! (length c - 1) = Some h1"
    by blast
  from res(1) c(1) have r: "res = the (analyzeTicker (Some c))" by simp
  have f: "cross res = detectCross (Some m0) (Some s0) (Some m1) (Some s1)"
    "histNow res = Some h1" "histPrev res = Some h0"
    "analysis.price res = c ! (length c - 1)" "analysis.prevPrice res = c ! (length c - 2)"
    unfolding r by (simp_all add: analyzeTicker_sufficient [OF c(2)] d del: One_nat_def)
  from res(2) f(1) have "m0 < s0 \<and> s1 < m1"
    by (simp add: detectCross_Some split: if_splits)
  moreover from res(3) f(2,3) have "h0 < h1" by (simp add: js_gt_def toNumber_def)
  moreover from res(4) f(4,5) have "c ! (length c - 2) < c ! (length c - 1)" by simp
  ultimately have "confirmedBullish c"
    unfolding confirmedBullish_def Let_def e using c(2) d by (simp add: definedLess_def)
  with c(1) show ?thesis by blast
qed

lemma bearish_no_intent:
  assumes "analyzeTicker (fetched env) = Some res" "cross res = Some BearishCross"
  shows "\<not> intentEmitted (fst (scanTicker symb env st))"
  using assms
  by (auto simp: scanTicker_def intentEmitted_def split: option.splits prod.splits if_splits)

lemma runScanOnce_intents:
  "symb \<in> set (intents (fst (runScanOnce items st))) \<Longrightarrow>
   \<exists>env c. (symb, env) \<in> set items \<and> fetched env = Some c \<and> confirmedBullish c"
proof (induction items arbitrary: st)
  case Nil
  then show ?case by (simp add: intents_def)
next
  case (Cons item items)
  obtain s env where item: "item = (s, env)" by (cases item)
  obtain out st1 where o: "scanTicker s env st = (out, st1)" by (cases "scanTicker s env st")
  obtain outs st2 where r: "runScanOnce items st1 = (outs, st2)" by (cases "runScanOnce items st1")
  from Cons.prems item o r
  have "(symb = s \<and> intentEmitted out) \<or> symb \<in> set (intents (fst (runScanOnce items st1)))"
    by (auto simp: intents_def split: if_splits)
  then show ?case
  proof
    assume a: "symb = s \<and> intentEmitted out"
    with o have "intentEmitted (fst (scanTicker s env st))" by simp
    from emits_confirmed [OF this] a item show ?thesis by auto
  next
    assume "symb \<in> set (intents (fst (runScanOnce items st1)))"
    from Cons.IH [OF this] show ?thesis by auto
  qed
qed

text \<open>
  Claim C4. In cross mode the scan hands an alert for a symbol to the channel only if
  the analysis of its history reports a bullish cross, the histogram is strictly
  higher at the last index than at the one before (both defined), and the last close
  is strictly above the previous close. The same holds for every symbol a whole pass
  emits an intent for. In particular, a history whose cross is bearish yields no
  intent.
\<close>

theorem cross_mode_confirmations:
  "(intentEmitted (fst (scanTicker symb env st)) \<longrightarrow>
      (\<exists>res h0 h1. analyzeTicker (fetched env) = Some res \<and> cross res = Some BullishCross \<and>
          histPrev res = Some h0 \<and> histNow res = Some h1 \<and> h0 < h1 \<and>
          analysis.prevPrice res < analysis.price res) \<and>
      (\<exists>c. fetched env = Some c \<and> confirmedBullish c)) \<and>
   (\<forall>s \<in> set (intents (fst (runScanOnce items st))).
      \<exists>e c. (s, e) \<in> set items \<and> fetched e = Some c \<and> confirmedBullish c) \<and>
   (\<forall>res. analyzeTicker (fetched env) = Some res \<and> cross res = Some BearishCross \<longrightarrow>
      \<not> intentEmitted (fst (scanTicker symb env st)) \<and>
      intents (fst (runScanOnce [(symb, env)] st)) = [])"
proof (intro conjI impI allI ballI)
  assume a: "intentEmitted (fst (scanTicker symb env st))"
  from emits_confirmed [OF a] show "\<exists>c. fetched env = Some c \<and> confirmedBullish c" .
  from scanTicker_emits [OF a] obtain res where res:
    "analyzeTicker (fetched env) = Some res" "cross res = Some BullishCross"
    "js_gt (histNow res) (histPrev res)" "analysis.prevPrice res < analysis.price res"
    by blast
  from analyzeTicker_Some [OF res(1)] obtain c where c:
    "fetched env = Some c" "MACD_SLOW + MACD_SIGNAL + 2 \<le> length c"
    by blast
  from defined_last_two [OF c(2)] obtain h0 h1 where d:
    "hist (macdSeries c) ! (length c - 2) = Some h0"
    "hist (macdSeries c) ! (length c - 1) = Some h1"
    by blast
  from res(1) c(1) have r: "res = the (analyzeTicker (Some c))" by simp
  have f: "histNow res = Some h1" "histPrev res = Some h0"
    unfolding r by (simp_all add: analyzeTicker_sufficient [OF c(2)] d del: One_nat_def)
  with res(3) have "h0 < h1" by (simp add: js_gt_def toNumber_def)
  with res f show "\<exists>res h0 h1. analyzeTicker (fetched env) = Some res \<and>
          cross res = Some BullishCross \<and>
          histPrev res = Some h0 \<and> histNow res = Some h1 \<and> h0 < h1 \<and>
          analysis.prevPrice res < analysis.price res"
    by blast
next
  fix s assume "s \<in> set (intents (fst (runScanOnce items st)))"
  then show "\<exists>e c. (s, e) \<in> set items \<and> fetched e = Some c \<and> confirmedBullish c"
    by (rule runScanOnce_intents)
next
  fix res assume b: "analyzeTicker (fetched env) = Some res \<and> cross res = Some BearishCross"
  then show n: "\<not> intentEmitted (fst (scanTicker symb env st))"
    using bearish_no_intent by blast
  then show "intents (fst (runScanOnce [(symb, env)] st)) = []"
    by (cases "scanTicker symb env st") (simp add: intents_def)
qed

lemma scanUp: "fst (scanTicker ''AAPL'' envUp gate0) = AlertSent"
  by (simp add: scanTicker_def envUp_def gate0_def analyzeUp canAlert_def canAlertWith_def
      resetDailyCounts_def countToday_def MAX_ALERTS_PER_DAY_def js_gt_def toNumber_def)

theorem cross_mode_confirmations_witness:
  "intentEmitted (fst (scanTicker ''AAPL'' envUp gate0)) \<and>
   (\<exists>res. analyzeTicker (fetched envUp) = Some res \<and> cross res = Some BullishCross \<and>
      histPrev res = Some (- (29360128 / 48828125)) \<and>
      histNow res = Some (46278380288 / 85693359375) \<and>
      analysis.prevPrice res = 65 \<and> analysis.price res = 80) \<and>
   confirmedBullish closesUp \<and>
   (\<exists>res. analyzeTicker (fetched envDown) = Some res \<and> cross res = Some BearishCross) \<and>
   \<not> intentEmitted (fst (scanTicker ''TSLA'' envDown gate0)) \<and>
   intents (fst (runScanOnce [(''TSLA'', envDown)] gate0)) = []"
proof -
  have a: "intentEmitted (fst (scanTicker ''AAPL'' envUp gate0))"
    by (simp add: scanUp intentEmitted_def)
  have up: "analyzeTicker (fetched envUp) =
     Some \<lparr>cross = Some BullishCross, macdNow = Some (- (2009 / 351)),
           signalNow = Some (- (536756895913 / 85693359375)),
           histNow = Some (46278380288 / 85693359375),
           histPrev = Some (- (29360128 / 48828125)),
           price = 80, prevPrice = 65, idx = 36\<rparr>"
    by (simp add: envUp_def analyzeUp)
  note t = cross_mode_confirmations [of "''AAPL''" envUp gate0 "[]"]
  from t a obtain c where c: "fetched envUp = Some c" "confirmedBullish c" by blast
  then have cb: "confirmedBullish closesUp" by (simp add: envUp_def)
  have b: "\<exists>res. analyzeTicker (fetched envDown) = Some res \<and> cross res = Some BearishCross"
    by (simp add: envDown_def analyzeDown)
  with cross_mode_confirmations [of "''TSLA''" envDown gate0 "[]"]
  have d: "\<not> intentEmitted (fst (scanTicker ''TSLA'' envDown gate0)) \<and>
      intents (fst (runScanOnce [(''TSLA'', envDown)] gate0)) = []"
    by blast
  from a up cb b d show ?thesis by simp
qed

section \<open>The signal line the code computes\<close>

text \<open>
  On every history of at least \<open>MACD_SLOW\<close> closes the EMA behind the signal line is 0
  from its seed index up to the last index without a MACD value, and the signal line
  starts at the first MACD value times \<open>k = 1/5\<close>.
\<close>

lemma signal_ema_zero_before_macd:
  assumes "MACD_SLOW \<le> length c"
  shows "MACD_SIGNAL - 1 \<le> i \<Longrightarrow> i < MACD_SLOW - 1 \<Longrightarrow>
         emaSeries (macdVals (macd (macdSeries c))) MACD_SIGNAL ! i = Some 0"
proof (induction i)
  case 0
  then show ?case by (simp add: MACD_SIGNAL_def)
next
  case (Suc i)
  let ?mv = "macdVals (macd (macdSeries c))"
  from assms have n: "26 \<le> length c" by (simp add: MACD_SLOW_def)
  have len: "length ?mv = length c" by (simp add: macdVals_def)
  have zero: "?mv ! j = 0" if "j < 25" for j
  proof -
    from that n have "j < length c" "j < MACD_SLOW - 1" by (simp_all add: MACD_SLOW_def)
    with macd_None_iff [OF assms, of j] show ?thesis by (simp add: macdVals_def)
  qed
  from Suc.prems have b: "Suc i < 25" "8 \<le> Suc i" by (simp_all add: MACD_SLOW_def MACD_SIGNAL_def)
  show ?case
  proof (cases "Suc i = 8")
    case True
    have "\<forall>x\<in>set (take 9 ?mv). x = 0"
    proof
      fix x assume "x \<in> set (take 9 ?mv)"
      then obtain j where "j < length (take 9 ?mv)" "take 9 ?mv ! j = x"
        by (auto simp: in_set_conv_nth)
      with zero [of j] show "x = 0" by simp
    qed
    then have "sum_list (take 9 ?mv) = 0" by (simp add: sum_list_constant)
    moreover have "emaSeries ?mv 9 ! (9 - 1) = Some (sum_list (take 9 ?mv) / real 9)"
      using n len by (intro emaSeries_seed) simp_all
    ultimately show ?thesis using True by (simp add: MACD_SIGNAL_def)
  next
    case False
    with b have i: "9 \<le> Suc i" "8 \<le> i" "i < 25" by simp_all
    from i Suc.IH have prev: "emaSeries ?mv MACD_SIGNAL ! i = Some 0"
      by (simp add: MACD_SLOW_def MACD_SIGNAL_def)
    have "\<exists>p. emaSeries ?mv 9 ! (Suc i - 1) = Some p \<and>
            emaSeries ?mv 9 ! Suc i =
              Some (?mv ! Suc i * (2 / (real 9 + 1)) + p * (1 - 2 / (real 9 + 1)))"
      using i b n len by (intro emaSeries_next) simp_all
    with prev zero [OF b(1)] show ?thesis by (simp add: MACD_SIGNAL_def)
  qed
qed

lemma signal_at_first_macd:
  assumes "MACD_SLOW \<le> length c" "macd (macdSeries c) ! (MACD_SLOW - 1) = Some m"
  shows "signal (macdSeries c) ! (MACD_SLOW - 1) = Some (m / 5)"
proof -
  let ?mv = "macdVals (macd (macdSeries c))"
  from assms(1) have n: "26 \<le> length c" by (simp add: MACD_SLOW_def)
  have len: "length ?mv = length c" by (simp add: macdVals_def)
  have at: "?mv ! 25 = m"
    using assms(2) n by (simp add: macdVals_def MACD_SLOW_def)
  have prev: "emaSeries ?mv 9 ! 24 = Some 0"
    using signal_ema_zero_before_macd [OF assms(1), of 24]
    by (simp add: MACD_SLOW_def MACD_SIGNAL_def)
  have "\<exists>p. emaSeries ?mv 9 ! (25 - 1) = Some p \<and>
          emaSeries ?mv 9 ! 25 =
            Some (?mv ! 25 * (2 / (real 9 + 1)) + p * (1 - 2 / (real 9 + 1)))"
    using n len by (intro emaSeries_next) simp_all
  with prev at have "emaSeries ?mv 9 ! 25 = Some (m / 5)" by simp
  with assms n show ?thesis
    by (simp add: signal_nth MACD_SLOW_def MACD_SIGNAL_def)
qed

text \<open>
  Claim C1 says that the signal line is the EMA over the defined region of the MACD
  line only, seeded by the simple average of the first \<open>MACD_SIGNAL\<close> defined MACD
  values, with no zero put in for an undefined index. The code does otherwise, here
  on the falling history: the EMA that becomes the signal line is seeded at index
  \<open>MACD_SIGNAL - 1\<close> with 0, the average of nine zero-filled slots. The first nine
  defined MACD values are all \<open>-7\<close>, so their average is \<open>-7\<close>; the signal line the
  code returns is \<open>-7/5\<close> at index 25 and about \<open>-6.06\<close> at index 33.
\<close>

theorem signal_seed_zero_filled:
  "emaSeries (macdVals (macd (macdSeries closesUp))) MACD_SIGNAL ! (MACD_SIGNAL - 1) = Some 0 \<and>
   take MACD_SIGNAL (drop (MACD_SLOW - 1) (macd (macdSeries closesUp))) =
     replicate 9 (Some (- 7)) \<and>
   signal (macdSeries closesUp) ! (MACD_SLOW - 1) = Some (- (7 / 5)) \<and>
   signal (macdSeries closesUp) ! (MACD_SLOW + MACD_SIGNAL - 2) = Some (- (11836867 / 1953125))"
  by (simp add: macdUp signalUp macdVals_def emaSeries_eq MACD_SIGNAL_def MACD_SLOW_def
      eval_nat_numeral)

text \<open>
  Claim C2 says that signal and histogram are undefined below index
  \<open>MACD_SLOW + MACD_SIGNAL - 2\<close>. On the falling history, which is long enough for the
  analyzer, the code returns numbers for both at index \<open>MACD_SLOW - 1 = 25\<close>, eight
  indices earlier. (The other two parts of the claim hold: \<open>analyzeTicker_insufficient\<close>
  and \<open>macd_None_iff\<close> above.)
\<close>

theorem signal_defined_before_threshold:
  "MACD_SLOW + MACD_SIGNAL + 2 \<le> length closesUp \<and>
   MACD_SLOW - 1 < MACD_SLOW + MACD_SIGNAL - 2 \<and>
   signal (macdSeries closesUp) ! (MACD_SLOW - 1) = Some (- (7 / 5)) \<and>
   hist (macdSeries closesUp) ! (MACD_SLOW - 1) = Some (- (28 / 5))"
proof -
  have "length closesUp = 37" by (simp add: closesUp_eq)
  then show ?thesis by (simp add: signalUp histUp MACD_SIGNAL_def MACD_SLOW_def)
qed

section \<open>The alert gate\<close>

lemma resetDailyCounts_frame:
  "lastAlertAt (resetDailyCounts today st) = lastAlertAt st"
  by (simp add: resetDailyCounts_def)

lemma snd_canAlertWith:
  "snd (canAlertWith q cd today now t st) = resetDailyCounts today st"
  by (simp add: canAlertWith_def Let_def split: option.splits)

lemma fst_canAlertWith:
  "fst (canAlertWith q cd today now t st) \<longleftrightarrow>
     countToday (resetDailyCounts today st) t < q \<and>
     (case lastAlertAt st t of
        None \<Rightarrow> True
      | Some lastTs \<Rightarrow> lastTs = 0 \<or> cd \<le> real_of_int (now - lastTs) / 60000)"
  by (auto simp: canAlertWith_def Let_def resetDailyCounts_frame split: option.splits)








lemma snd_canSendAlert:
  "snd (canSendAlert today now t sc) = resetDailyCounters today sc"
  by (simp add: canSendAlert_def Let_def split: option.splits)

text \<open>
  Claim C10. The day rollover inside \<^verbatim>\<open>canAlert\<close> and inside \<^verbatim>\<open>canSendAlert\<close> clears the
  daily counters only: the timestamps of the last alerts are the same after it. So a
  ticker alerted less than 15 minutes before the check is denied right after the
  rollover, although its daily count is back to zero.
\<close>

theorem rollover_keeps_cooldown:
  "(today \<noteq> lastDailyReset st \<longrightarrow>
      lastAlertAt (snd (canAlert today now t st)) = lastAlertAt st \<and>
      dailyAlerts (snd (canAlert today now t st)) = Map.empty \<and>
      countToday (snd (canAlert today now t st)) t = 0 \<and>
      (\<forall>lastTs. lastAlertAt st t = Some lastTs \<and> lastTs \<noteq> 0 \<and> now - lastTs < 15 * 60000 \<longrightarrow>
         \<not> fst (canAlert today now t st))) \<and>
   (today \<noteq> lastReset sc \<longrightarrow>
      alertHistory (snd (canSendAlert today now t sc)) = alertHistory sc \<and>
      alertCounter (snd (canSendAlert today now t sc)) = Map.empty \<and>
      (\<forall>lastTs. alertHistory sc t = Some lastTs \<and> now - lastTs < 15 * 60000 \<longrightarrow>
         \<not> fst (canSendAlert today now t sc)))"
proof (intro conjI impI allI)
  assume d: "today \<noteq> lastDailyReset st"
  then show "lastAlertAt (snd (canAlert today now t st)) = lastAlertAt st"
    and "dailyAlerts (snd (canAlert today now t st)) = Map.empty"
    and "countToday (snd (canAlert today now t st)) t = 0"
    by (simp_all add: canAlert_def snd_canAlertWith resetDailyCounts_def countToday_def)
  fix lastTs
  assume "lastAlertAt st t = Some lastTs \<and> lastTs \<noteq> 0 \<and> now - lastTs < 15 * 60000"
  then show "\<not> fst (canAlert today now t st)"
    by (simp add: canAlert_def fst_canAlertWith ALERT_COOLDOWN_MINUTES_def field_simps)
next
  assume d: "today \<noteq> lastReset sc"
  then show "alertHistory (snd (canSendAlert today now t sc)) = alertHistory sc"
    and "alertCounter (snd (canSendAlert today now t sc)) = Map.empty"
    by (simp_all add: snd_canSendAlert resetDailyCounters_def)
  fix lastTs
  assume "alertHistory sc t = Some lastTs \<and> now - lastTs < 15 * 60000"
  then show "\<not> fst (canSendAlert today now t sc)"
    by (simp add: canSendAlert_def Let_def resetDailyCounters_def ALERT_COOLDOWN_MINUTES_def
        field_simps)
qed

theorem rollover_keeps_cooldown_witness:
  "''Mon Nov 02 2026'' \<noteq> lastDailyReset gateSunday \<and>
   lastAlertAt gateSunday ''AAPL'' = Some 1000000 \<and> (1000000::int) \<noteq> 0 \<and>
   (1060000::int) - 1000000 < 15 * 60000 \<and>
   countToday gateSunday ''AAPL'' = 3 \<and>
   countToday (snd (canAlert ''Mon Nov 02 2026'' 1060000 ''AAPL'' gateSunday)) ''AAPL'' = 0 \<and>
   lastAlertAt (snd (canAlert ''Mon Nov 02 2026'' 1060000 ''AAPL'' gateSunday)) ''AAPL''
     = Some 1000000 \<and>
   \<not> fst (canAlert ''Mon Nov 02 2026'' 1060000 ''AAPL'' gateSunday) \<and>
   ''Mon Nov 02 2026'' \<noteq> lastReset scannerSunday \<and>
   alertHistory scannerSunday ''AAPL'' = Some 1000000 \<and>
   alertCounter (snd (canSendAlert ''Mon Nov 02 2026'' 1060000 ''AAPL'' scannerSunday)) = Map.empty \<and>
   \<not> fst (canSendAlert ''Mon Nov 02 2026'' 1060000 ''AAPL'' scannerSunday)"
proof -
  have h: "''Mon Nov 02 2026'' \<noteq> lastDailyReset gateSunday"
    "lastAlertAt gateSunday ''AAPL'' = Some 1000000" "(1000000::int) \<noteq> 0"
    "(1060000::int) - 1000000 < 15 * 60000" "countToday gateSunday ''AAPL'' = 3"
    "''Mon Nov 02 2026'' \<noteq> lastReset scannerSunday"
    "alertHistory scannerSunday ''AAPL'' = Some 1000000"
    by (simp_all add: gateSunday_def scannerSunday_def countToday_def)
  note t = rollover_keeps_cooldown [of "''Mon Nov 02 2026''" gateSunday 1060000 "''AAPL''"
      scannerSunday]
  from t h(1) have a:
    "lastAlertAt (snd (canAlert ''Mon Nov 02 2026'' 1060000 ''AAPL'' gateSunday)) = lastAlertAt gateSunday"
    "countToday (snd (canAlert ''Mon Nov 02 2026'' 1060000 ''AAPL'' gateSunday)) ''AAPL'' = 0"
    by blast+
  from t h(1-4) have b: "\<not> fst (canAlert ''Mon Nov 02 2026'' 1060000 ''AAPL'' gateSunday)"
    by blast
  from t h(6) have c:
    "alertCounter (snd (canSendAlert ''Mon Nov 02 2026'' 1060000 ''AAPL'' scannerSunday)) = Map.empty"
    by blast
  from t h(6,7,4) have d: "\<not> fst (canSendAlert ''Mon Nov 02 2026'' 1060000 ''AAPL'' scannerSunday)"
    by blast
  from h a b c d show ?thesis by simp
qed

section \<open>The backoff limiter\<close>

lemma backoffDelay_wait: "backoffDelay (fst (wait now rl)) = backoffDelay rl"
  by (simp add: wait_def Let_def split: option.splits)

lemma limiter_bounds:
  "limiter_reachable rl \<Longrightarrow> 5000 \<le> backoffDelay rl \<and> backoffDelay rl \<le> 30000"
proof (induction rule: limiter_reachable.induct)
  case init
  show ?case by (simp add: newRateLimiter_def)
next
  case (after_wait rl now)
  then show ?case by (simp add: backoffDelay_wait)
next
  case (after_mark rl)
  then show ?case by (simp add: markRateLimited_def min_def)
next
  case (after_reset rl)
  show ?case by (simp add: reset_def)
qed

lemma wait_after_mark:
  "now + backoffDelay (markRateLimited rl) \<le> snd (wait now (markRateLimited rl))"
  by (simp add: wait_def markRateLimited_def Let_def split: option.splits)

text \<open>
  Claim C8. For every limiter the program can hold: a throttle report sets
  \<open>backoffDelay\<close> to \<open>min (1.5 * previous) 30000\<close>, which is never below the previous
  delay and never above the cap of 30 seconds, and is strictly above the previous
  delay unless it is the cap; the \<^verbatim>\<open>wait\<close> after the report returns no earlier than
  the previous delay after its call; \<^verbatim>\<open>wait\<close> itself leaves \<open>backoffDelay\<close> as it is;
  \<^verbatim>\<open>reset\<close> sets it to 5000, the value of a new limiter.
\<close>

theorem backoff_growth:
  assumes "limiter_reachable rl"
  shows "backoffDelay (markRateLimited rl) = min (1.5 * backoffDelay rl) 30000 \<and>
         backoffDelay (markRateLimited rl) \<le> 30000 \<and>
         backoffDelay rl \<le> backoffDelay (markRateLimited rl) \<and>
         (backoffDelay rl < backoffDelay (markRateLimited rl) \<or>
          backoffDelay (markRateLimited rl) = 30000) \<and>
         now + backoffDelay rl \<le> snd (wait now (markRateLimited rl)) \<and>
         backoffDelay (fst (wait now rl)) = backoffDelay rl \<and>
         backoffDelay (reset rl) = 5000 \<and>
         backoffDelay newRateLimiter = 5000"
proof -
  from limiter_bounds [OF assms] have b: "5000 \<le> backoffDelay rl" "backoffDelay rl \<le> 30000"
    by simp_all
  have m: "backoffDelay (markRateLimited rl) = min (1.5 * backoffDelay rl) 30000"
    by (simp add: markRateLimited_def mult.commute)
  from b m have g: "backoffDelay rl \<le> backoffDelay (markRateLimited rl)"
    by (simp add: min_def)
  from b m have s: "backoffDelay rl < backoffDelay (markRateLimited rl) \<or>
          backoffDelay (markRateLimited rl) = 30000"
    by (simp add: min_def)
  from g wait_after_mark [of now rl]
  have w: "now + backoffDelay rl \<le> snd (wait now (markRateLimited rl))" by simp
  from m g s w show ?thesis
    by (simp add: backoffDelay_wait reset_def newRateLimiter_def)
qed

theorem backoff_growth_witness:
  "limiter_reachable newRateLimiter \<and>
   backoffDelay (markRateLimited newRateLimiter) = 7500 \<and>
   backoffDelay newRateLimiter < backoffDelay (markRateLimited newRateLimiter) \<and>
   100 + 5000 \<le> snd (wait 100 (markRateLimited newRateLimiter)) \<and>
   backoffDelay (fst (wait 100 newRateLimiter)) = 5000"
proof -
  have r: "limiter_reachable newRateLimiter" by (rule limiter_reachable.init)
  have v: "backoffDelay newRateLimiter = 5000" by (simp add: newRateLimiter_def)
  from backoff_growth [OF r, of 100] v r show ?thesis by simp
qed

text \<open>From a new limiter the cap is reached with the fifth report in a row.\<close>

lemma backoff_saturates:
  "backoffDelay ((markRateLimited ^^ 5) newRateLimiter) = 30000 \<and>
   backoffDelay ((markRateLimited ^^ 6) newRateLimiter) = 30000"
  by (simp add: markRateLimited_def newRateLimiter_def eval_nat_numeral)

section \<open>The momentum check\<close>

text \<open>
  Claim C9. On a sample, \<^verbatim>\<open>checkMomentum\<close> is a function of the sample alone: it
  rejects with \<open>Price too high\<close> if the price is above 1000, else with \<open>Price too low\<close>
  if it is below 0.01, else with \<open>Volume too low\<close> if the volume is below 500000, else
  with \<open>Move too small\<close> if the absolute percent change is below 5, else with
  \<open>RelVol too low\<close> if the relative volume is below 1.3, and accepts otherwise. It takes
  and returns no state.
\<close>

theorem checkMomentum_first_failing_check:
  "checkMomentum (Some d) =
     (if stock_data.price d > 1000 then (False, ''Price too high'')
      else if stock_data.price d < 0.01 then (False, ''Price too low'')
      else if volume d < 500000 then (False, ''Volume too low'')
      else if \<bar>change_pct d\<bar> < 5.0 then (False, ''Move too small'')
      else if rel_volume d < 1.3 then (False, ''RelVol too low'')
      else (True, ''Momentum detected!'')) \<and>
   (fst (checkMomentum (Some d)) \<longleftrightarrow>
      stock_data.price d \<le> 1000 \<and> 0.01 \<le> stock_data.price d \<and> 500000 \<le> volume d \<and>
      5.0 \<le> \<bar>change_pct d\<bar> \<and> 1.3 \<le> rel_volume d)"
  by (simp add: checkMomentum_def MAX_PRICE_def MIN_PRICE_def MIN_VOLUME_def
      MIN_PRICE_CHANGE_def MIN_REL_VOLUME_def not_less)

theorem checkMomentum_first_failing_check_witness:
  "checkMomentum (Some \<lparr>price = 2000, change_pct = 0, volume = 0, rel_volume = 0\<rparr>)
     = (False, ''Price too high'') \<and>
   checkMomentum (Some \<lparr>price = 10, change_pct = - 6, volume = 600000, rel_volume = 1.2\<rparr>)
     = (False, ''RelVol too low'') \<and>
   checkMomentum (Some \<lparr>price = 10, change_pct = - 6, volume = 600000, rel_volume = 1.5\<rparr>)
     = (True, ''Momentum detected!'')"
  using checkMomentum_first_failing_check
          [of "\<lparr>price = 2000, change_pct = 0, volume = 0, rel_volume = 0\<rparr>"]
        checkMomentum_first_failing_check
          [of "\<lparr>price = 10, change_pct = - 6, volume = 600000, rel_volume = 1.2\<rparr>"]
        checkMomentum_first_failing_check
          [of "\<lparr>price = 10, change_pct = - 6, volume = 600000, rel_volume = 1.5\<rparr>"]
  by simp

section \<open>Overlapping scan passes\<close>

lemma step_invariant:
  assumes "timers s + starting s \<le> 1" "\<not> scanning s \<longrightarrow> timers s + starting s = 0"
  shows "timers (step e s) + starting (step e s) \<le> 1 \<and>
         (\<not> scanning (step e s) \<longrightarrow> timers (step e s) + starting (step e s) = 0)"
  using assms by (cases e) auto

lemma run_invariant:
  "timers s + starting s \<le> 1 \<Longrightarrow> (\<not> scanning s \<longrightarrow> timers s + starting s = 0) \<Longrightarrow>
   timers (run evs s) + starting (run evs s) \<le> 1"
proof (induction evs arbitrary: s)
  case Nil
  then show ?case by simp
next
  case (Cons e evs)
  from step_invariant [OF Cons.prems, of e]
  have "timers (step e s) + starting (step e s) \<le> 1"
    and "\<not> scanning (step e s) \<longrightarrow> timers (step e s) + starting (step e s) = 0"
    by blast+
  then have "timers (run evs (step e s)) + starting (run evs (step e s)) \<le> 1"
    by (rule Cons.IH)
  then show ?case by simp
qed

text \<open>
  Claim C3 says that at most one scan pass runs at a time. It fails: once the loop has
  started its first pass, a \<^verbatim>\<open>scan-now\<close> request, and likewise a timer tick, starts a
  second pass while the first is in flight.
\<close>

theorem scans_overlap:
  "inFlight (run [StartLoop, ChannelFetched, ScanNow] sched0) = 2 \<and>
   inFlight (run [StartLoop, ChannelFetched, TimerTick] sched0) = 2"
  by (simp add: sched0_def)

text \<open>
  Claim C3 as amended. The flag \<^verbatim>\<open>scanning\<close> guards the start of the periodic loop
  only: whatever the handlers do, at most one interval timer is ever installed, and a
  second \<^verbatim>\<open>startLoop\<close> changes nothing. Passes are not guarded: a \<^verbatim>\<open>scan-now\<close> request
  always starts one more pass, and so does every tick of the installed timer, whether
  or not a pass is in flight.
\<close>

theorem startLoop_guards_timer_only:
  "timers (run evs sched0) \<le> 1 \<and>
   step StartLoop (step StartLoop s) = step StartLoop s \<and>
   inFlight (step ScanNow (run evs sched0)) = inFlight (run evs sched0) + 1 \<and>
   inFlight (step TimerTick (run evs sched0)) = inFlight (run evs sched0) + timers (run evs sched0)"
proof -
  have "timers (run evs sched0) + starting (run evs sched0) \<le> 1"
    by (rule run_invariant) (simp_all add: sched0_def)
  then have t: "timers (run evs sched0) \<le> 1" by simp
  then have "timers (run evs sched0) = 0 \<or> timers (run evs sched0) = 1" by auto
  then have "inFlight (step TimerTick (run evs sched0))
      = inFlight (run evs sched0) + timers (run evs sched0)"
    by auto
  with t show ?thesis by simp
qed

theorem startLoop_guards_timer_only_witness:
  "timers (run [StartLoop, ChannelFetched, StartLoop, ChannelFetched] sched0) = 1 \<and>
   inFlight (step ScanNow (run [StartLoop, ChannelFetched] sched0)) = 2 \<and>
   inFlight (step TimerTick (run [StartLoop, ChannelFetched] sched0)) = 2"
proof -
  have a: "timers (run [StartLoop, ChannelFetched, StartLoop, ChannelFetched] sched0) = 1"
    "inFlight (run [StartLoop, ChannelFetched] sched0) = 1"
    "timers (run [StartLoop, ChannelFetched] sched0) = 1"
    by (simp_all add: sched0_def)
  from startLoop_guards_timer_only [of "[StartLoop, ChannelFetched]" sched0] a
  show ?thesis by simp
qed

end
